theory Spec2Isabelle
  imports Main "HOL-Library.Word"
begin

section \<open>JavaScript strings\<close>

text \<open>
  A JavaScript string is a sequence of UTF-16 code units; \<open>length\<close>, \<open>slice\<close>,
  \<open>split\<close>, \<open>includes\<close> and a regular expression without the \<open>u\<close> flag all count and
  compare code units. The em dash of the transcript headers (U+2014) and the two check
  marks of the classifier (U+2713, U+2705) are one code unit each.
\<close>

type_synonym unit16 = "16 word"
type_synonym jsstring = "unit16 list"

definition lit :: "string \<Rightarrow> jsstring" where
  "lit s = map (\<lambda>c. of_nat (of_char c)) s"

abbreviation NL :: unit16 where "NL \<equiv> 0x0A"
abbreviation SPACE :: unit16 where "SPACE \<equiv> 0x20"
abbreviation COLON :: unit16 where "COLON \<equiv> 0x3A"
abbreviation EM_DASH :: unit16 where "EM_DASH \<equiv> 0x2014"

text \<open>\<open>s.split(sep)\<close> for a separator of one code unit: never empty, \<open>''.split(sep)\<close> is \<open>['']\<close>.\<close>

fun split_js :: "unit16 \<Rightarrow> jsstring \<Rightarrow> jsstring list" where
  "split_js sep [] = [[]]"
| "split_js sep (c # cs) =
     (if c = sep then [] # split_js sep cs
      else (case split_js sep cs of
              l # ls \<Rightarrow> (c # l) # ls
            | [] \<Rightarrow> [[c]]))"

text \<open>\<open>lines.join(sep)\<close> for a separator of one code unit.\<close>

fun join_js :: "unit16 \<Rightarrow> jsstring list \<Rightarrow> jsstring" where
  "join_js sep [] = []"
| "join_js sep [l] = l"
| "join_js sep (l # l' # ls) = l @ sep # join_js sep (l' # ls)"

definition startsWith :: "jsstring \<Rightarrow> jsstring \<Rightarrow> bool" where
  "startsWith s p = (take (length p) s = p)"

definition endsWith :: "jsstring \<Rightarrow> jsstring \<Rightarrow> bool" where
  "endsWith s p = (length p \<le> length s \<and> drop (length s - length p) s = p)"

fun includes_js :: "jsstring \<Rightarrow> jsstring \<Rightarrow> bool" where
  "includes_js [] p = (p = [])"
| "includes_js (c # cs) p = (startsWith (c # cs) p \<or> includes_js cs p)"

text \<open>\<open>s.slice(0, n)\<close> on a string or an array, for a literal \<open>n \<ge> 0\<close>.\<close>

definition slice0 :: "nat \<Rightarrow> 'a list \<Rightarrow> 'a list" where
  "slice0 n xs = take n xs"

text \<open>\<open>arr[0]\<close> inside a template literal: an empty array would print \<open>undefined\<close>.\<close>

definition first0 :: "jsstring list \<Rightarrow> jsstring" where
  "first0 ls = (case ls of l # _ \<Rightarrow> l | [] \<Rightarrow> lit ''undefined'')"

text \<open>A value inside a template literal: \<open>None\<close> is \<open>undefined\<close>.\<close>

definition templ :: "jsstring option \<Rightarrow> jsstring" where
  "templ v = (case v of Some s \<Rightarrow> s | None \<Rightarrow> lit ''undefined'')"

text \<open>Decimal digits, as a number prints in a template literal.\<close>

definition digitUnit :: "nat \<Rightarrow> unit16" where
  "digitUnit d = of_nat (48 + d)"

fun showNat :: "nat \<Rightarrow> jsstring" where
  "showNat n = (if n < 10 then [digitUnit n] else showNat (n div 10) @ [digitUnit (n mod 10)])"

declare showNat.simps [simp del]

definition padZero :: "nat \<Rightarrow> nat \<Rightarrow> jsstring" where
  "padZero w n = replicate (w - length (showNat n)) (digitUnit 0) @ showNat n"

section \<open>Dates\<close>

text \<open>
  A \<open>Date\<close> holds a time value: milliseconds since 1970-01-01T00:00:00Z. The methods
  \<open>setHours\<close>, \<open>getDate\<close>, \<open>setDate\<close> and \<open>toLocaleTimeString\<close> work in the local time
  zone of the machine, \<open>toISOString\<close> in UTC. The local time zone is a parameter \<open>tz\<close>
  of the model: its offset from UTC in minutes, positive to the east, taken as fixed
  over the days a run touches (no daylight-saving change in between).
\<close>

abbreviation msPerDay :: int where "msPerDay \<equiv> 86400000"
abbreviation msPerHour :: int where "msPerHour \<equiv> 3600000"
abbreviation msPerMinute :: int where "msPerMinute \<equiv> 60000"

text \<open>
  The proleptic Gregorian calendar: the day number (days since 1970-01-01) of a year,
  month (1 to 12) and day of month, and back. A day of month outside the month counts on
  into the neighbouring months, as \<open>MakeDay\<close> does for \<open>setDate\<close>.
\<close>

definition daysFromCivil :: "int \<Rightarrow> int \<Rightarrow> int \<Rightarrow> int" where
  "daysFromCivil y m d =
     (let y' = (if m \<le> 2 then y - 1 else y);
          era = y' div 400;
          yoe = y' mod 400;
          doy = (153 * (if m > 2 then m - 3 else m + 9) + 2) div 5 + d - 1;
          doe = yoe * 365 + yoe div 4 - yoe div 100 + doy
      in era * 146097 + doe - 719468)"

definition civilFromDays :: "int \<Rightarrow> int \<times> int \<times> int" where
  "civilFromDays z =
     (let z' = z + 719468;
          era = z' div 146097;
          doe = z' mod 146097;
          yoe = (doe - doe div 1460 + doe div 36524 - doe div 146096) div 365;
          doy = doe - (365 * yoe + yoe div 4 - yoe div 100);
          mp = (5 * doy + 2) div 153;
          d = doy - (153 * mp + 2) div 5 + 1;
          m = (if mp < 10 then mp + 3 else mp - 9);
          y = yoe + era * 400
      in (if m \<le> 2 then y + 1 else y, m, d))"

definition localTime :: "int \<Rightarrow> int \<Rightarrow> int" where
  "localTime tz t = t + tz * msPerMinute"

definition utcOfLocal :: "int \<Rightarrow> int \<Rightarrow> int" where
  "utcOfLocal tz l = l - tz * msPerMinute"

text \<open>\<open>d.setHours(h, m, s, ms)\<close>: the same local day, at the given local time.\<close>

definition setHours :: "int \<Rightarrow> int \<Rightarrow> int \<Rightarrow> int \<Rightarrow> int \<Rightarrow> int \<Rightarrow> int" where
  "setHours tz t h m s ms =
     utcOfLocal tz ((localTime tz t div msPerDay) * msPerDay
                    + h * msPerHour + m * msPerMinute + s * 1000 + ms)"

text \<open>\<open>d.getDate()\<close>: the local day of the month.\<close>

definition getDate :: "int \<Rightarrow> int \<Rightarrow> int" where
  "getDate tz t = (case civilFromDays (localTime tz t div msPerDay) of (y, m, d) \<Rightarrow> d)"

text \<open>\<open>d.setDate(dt)\<close>: the local year, month and time of day kept, the day of month set.\<close>

definition setDate :: "int \<Rightarrow> int \<Rightarrow> int \<Rightarrow> int" where
  "setDate tz t dt =
     (case civilFromDays (localTime tz t div msPerDay) of
        (y, m, d) \<Rightarrow>
          utcOfLocal tz (daysFromCivil y m dt * msPerDay + localTime tz t mod msPerDay))"

text \<open>
  \<open>d.toISOString()\<close>: \<open>YYYY-MM-DDTHH:mm:ss.sssZ\<close> in UTC; a year outside 0 to 9999 is
  written with a sign and six digits.
\<close>

definition isoYear :: "int \<Rightarrow> jsstring" where
  "isoYear y =
     (if 0 \<le> y \<and> y \<le> 9999 then padZero 4 (nat y)
      else if y < 0 then lit ''-'' @ padZero 6 (nat (- y))
      else lit ''+'' @ padZero 6 (nat y))"

definition toISOString :: "int \<Rightarrow> jsstring" where
  "toISOString t =
     (case civilFromDays (t div msPerDay) of
        (y, m, d) \<Rightarrow>
          (let r = nat (t mod msPerDay) in
           isoYear y @ lit ''-'' @ padZero 2 (nat m) @ lit ''-'' @ padZero 2 (nat d)
           @ lit ''T'' @ padZero 2 (r div 3600000) @ lit '':''
           @ padZero 2 (r div 60000 mod 60) @ lit '':''
           @ padZero 2 (r div 1000 mod 60) @ lit ''.''
           @ padZero 3 (r mod 1000) @ lit ''Z''))"

text \<open>
  \<open>new Date(v).toLocaleTimeString('pl-PL', {hour: '2-digit', minute: '2-digit'})\<close>:
  the local time of day as \<open>HH:MM\<close> on a 24-hour clock; \<open>None\<close> is the invalid date
  that \<open>new Date\<close> makes of a missing or unreadable value.
\<close>

definition toLocaleTimeString :: "int \<Rightarrow> int option \<Rightarrow> jsstring" where
  "toLocaleTimeString tz d =
     (case d of
        None \<Rightarrow> lit ''Invalid Date''
      | Some t \<Rightarrow>
          (let r = nat (localTime tz t mod msPerDay) in
           padZero 2 (r div 3600000) @ [COLON] @ padZero 2 (r div 60000 mod 60)))"

section \<open>The collector\<close>

text \<open>
  \<open>getDateRange\<close> reads the clock (\<open>new Date()\<close>); the reading is the parameter \<open>now\<close>.
\<close>

record date_range =
  afterStr :: jsstring
  beforeStr :: jsstring
  dateStr :: jsstring

definition getDateRange :: "int \<Rightarrow> int \<Rightarrow> date_range" where
  "getDateRange tz now =
     (let today3AM = setHours tz now 3 0 0 0;
          yesterday345PM = setHours tz (setDate tz today3AM (getDate tz today3AM - 1)) 3 45 0 0
      in \<lparr>afterStr = toISOString yesterday345PM,
          beforeStr = toISOString today3AM,
          dateStr = first0 (split_js 0x54 (toISOString yesterday345PM))\<rparr>)"

text \<open>
  A message as the chat API returns it. A field that is absent is \<open>None\<close>;
  \<open>createdAt\<close> is the time value that \<open>new Date\<close> reads from it. The field \<open>content\<close>
  of the API is \<open>rawContent\<close> here, apart from the \<open>content\<close> of a decoded message.
\<close>

record raw_message =
  createdAt :: "int option"
  displayName :: "jsstring option"
  userId :: "jsstring option"
  rawContent :: "jsstring option"

text \<open>\<open>a || b\<close> on strings that may be absent: the empty string is falsy.\<close>

definition orElse :: "jsstring option \<Rightarrow> jsstring option \<Rightarrow> jsstring option" where
  "orElse a b = (case a of Some s \<Rightarrow> (if s \<noteq> [] then Some s else b) | None \<Rightarrow> b)"

text \<open>The three constants of the loop body of \<open>formatTranscript\<close>.\<close>

definition timeOf :: "int \<Rightarrow> raw_message \<Rightarrow> jsstring" where
  "timeOf tz msg = toLocaleTimeString tz (createdAt msg)"

definition authorOf :: "raw_message \<Rightarrow> jsstring" where
  "authorOf msg = templ (orElse (displayName msg) (userId msg))"

definition contentOf :: "raw_message \<Rightarrow> jsstring" where
  "contentOf msg = templ (orElse (rawContent msg) (Some []))"

definition transcriptBlock :: "int \<Rightarrow> raw_message \<Rightarrow> jsstring list" where
  "transcriptBlock tz msg =
     [lit ''### '' @ timeOf tz msg @ [SPACE, EM_DASH, SPACE] @ authorOf msg,
      [],
      contentOf msg,
      []]"

text \<open>
  \<open>formatTranscript\<close> reads the clock for the date of the heading; the reading is the
  parameter \<open>now\<close>.
\<close>

definition formatTranscript :: "int \<Rightarrow> int \<Rightarrow> raw_message list \<Rightarrow> jsstring \<Rightarrow> jsstring" where
  "formatTranscript tz now messages channel =
     join_js NL
       (foldl (\<lambda>lines msg. lines @ transcriptBlock tz msg)
          [lit ''# '' @ channel @ [SPACE, EM_DASH, SPACE]
             @ first0 (split_js 0x54 (toISOString now)),
           []]
          messages)"

text \<open>
  The main loop of the collector. What it needs from outside is a parameter: the time
  zone, the clock (read once by \<open>getDateRange\<close>, and once for every transcript by
  \<open>formatTranscript\<close>: \<open>clock channel\<close>), and \<open>fetchMessages\<close>. A fetch fails
  (\<open>FetchFailed\<close>: the promise is rejected), or returns an array of messages, as the
  response or as its field \<open>messages\<close> (\<open>Fetched\<close>), or something else that has no
  length and cannot be iterated (\<open>FetchedOther\<close>: \<open>formatTranscript\<close> throws). Both
  failures are caught in the loop and the loop goes on. The files under the output
  directory are a map from the day's directory and the file name to the text written;
  what is printed on the console is left out.
\<close>

definition CHANNELS :: "jsstring list" where
  "CHANNELS = [lit ''general'', lit ''coding'', lit ''bear-agency'', lit ''bears-only'',
               lit ''beramonium'', lit ''consciousness'']"

datatype fetch_result = FetchFailed | FetchedOther | Fetched "raw_message list"

type_synonym files = "jsstring \<times> jsstring \<Rightarrow> jsstring option"

definition collectChannel ::
  "int \<Rightarrow> (jsstring \<Rightarrow> int) \<Rightarrow> (jsstring \<Rightarrow> jsstring \<Rightarrow> jsstring \<Rightarrow> fetch_result)
   \<Rightarrow> date_range \<Rightarrow> files \<Rightarrow> jsstring \<Rightarrow> files" where
  "collectChannel tz clock fetchMessages dr fs channel =
     (case fetchMessages channel (afterStr dr) (beforeStr dr) of
        FetchFailed \<Rightarrow> fs
      | FetchedOther \<Rightarrow> fs
      | Fetched messages \<Rightarrow>
          if length messages = 0 then fs
          else fs((dateStr dr, channel @ lit ''.md'')
                    \<mapsto> formatTranscript tz (clock channel) messages channel))"

definition collectorMain ::
  "int \<Rightarrow> int \<Rightarrow> (jsstring \<Rightarrow> int) \<Rightarrow> (jsstring \<Rightarrow> jsstring \<Rightarrow> jsstring \<Rightarrow> fetch_result)
   \<Rightarrow> files \<Rightarrow> files" where
  "collectorMain tz now clock fetchMessages fs =
     foldl (collectChannel tz clock fetchMessages (getDateRange tz now)) fs CHANNELS"

section \<open>The summarizer: decoding a transcript\<close>

record message =
  time :: jsstring
  author :: jsstring
  content :: jsstring

definition isDigit :: "unit16 \<Rightarrow> bool" where
  "isDigit u = (0x30 \<le> u \<and> u \<le> 0x39)"

text \<open>The code units that \<open>.\<close> of a regular expression does not match.\<close>

definition isLineTerminator :: "unit16 \<Rightarrow> bool" where
  "isLineTerminator u = (u = 0x0A \<or> u = 0x0D \<or> u = 0x2028 \<or> u = 0x2029)"

text \<open>The group \<^verbatim>\<open>(\d{2}:\d{2})\<close> of the header pattern.\<close>

fun isTime :: "jsstring \<Rightarrow> bool" where
  "isTime [h1, h2, c, m1, m2] = (isDigit h1 \<and> isDigit h2 \<and> c = COLON \<and> isDigit m1 \<and> isDigit m2)"
| "isTime _ = False"

text \<open>
  \<^verbatim>\<open>line.match(/^### (\d{2}:\d{2}) - (.+)$/)\<close> (the dash is U+2014): the two groups when the whole line
  matches, \<open>None\<close> for \<open>null\<close>. The pattern has no alternative, so the match is decided
  position by position: four units \<open>###\<close> and a space, five units of time, a space, the
  em dash and a space, and one or more units that are no line terminator, up to the end.
\<close>

definition headerMatch :: "jsstring \<Rightarrow> (jsstring \<times> jsstring) option" where
  "headerMatch line =
     (let tm = take 5 (drop 4 line); rest = drop 12 line in
      if startsWith line (lit ''### '') \<and> isTime tm
         \<and> take 3 (drop 9 line) = [SPACE, EM_DASH, SPACE]
         \<and> rest \<noteq> [] \<and> list_all (\<lambda>u. \<not> isLineTerminator u) rest
      then Some (tm, rest) else None)"

text \<open>
  The state of the loop of \<open>parseTranscript\<close>: the array \<open>messages\<close> and \<open>currentMsg\<close>
  (\<open>None\<close> for \<open>null\<close>). One step is the body of the loop for one line.
\<close>

type_synonym parse_state = "message list \<times> message option"

definition pushCurrent :: "message list \<Rightarrow> message option \<Rightarrow> message list" where
  "pushCurrent messages currentMsg =
     (case currentMsg of Some m \<Rightarrow> messages @ [m] | None \<Rightarrow> messages)"

definition parseLine :: "parse_state \<Rightarrow> jsstring \<Rightarrow> parse_state" where
  "parseLine st line =
     (case st of (messages, currentMsg) \<Rightarrow>
        (case headerMatch line of
           Some (t, a) \<Rightarrow>
             (pushCurrent messages currentMsg,
              Some \<lparr>time = t, author = a, content = []\<rparr>)
         | None \<Rightarrow>
             (case currentMsg of
                Some m \<Rightarrow>
                  if \<not> startsWith line (lit ''# '')
                  then (messages,
                        Some (m\<lparr>content :=
                                 content m @ (if content m \<noteq> [] then [NL] else []) @ line\<rparr>))
                  else st
              | None \<Rightarrow> st)))"

definition parseLines :: "jsstring list \<Rightarrow> message list" where
  "parseLines ls = (case foldl parseLine ([], None) ls of
                      (messages, currentMsg) \<Rightarrow> pushCurrent messages currentMsg)"

definition parseTranscript :: "jsstring \<Rightarrow> message list" where
  "parseTranscript input = parseLines (split_js NL input)"

text \<open>
  What the loop leaves in \<open>content\<close> for the lines it appended: the lines joined by
  newlines, after the empty lines at the front (appended to an empty content, they
  leave it empty).
\<close>

definition appended :: "jsstring list \<Rightarrow> jsstring" where
  "appended ls = join_js NL (dropWhile (\<lambda>l. l = []) ls)"

section \<open>The summarizer: classifying and rendering\<close>

text \<open>
  \<open>toLowerCase\<close>, as far as the searches of the classifier can tell. The letters A to Z
  become a to z, and the Kelvin sign (U+212A) becomes k: these are the code units that
  turn into one of the ASCII letters searched for. Every other code unit is left as it
  is: a letter outside ASCII turns into a code unit outside ASCII, which no keyword
  contains. (U+0130 turns into i followed by U+0307; no keyword goes on with U+0307
  after an i, so the searches answer the same.)
\<close>

definition lowerUnit :: "unit16 \<Rightarrow> unit16" where
  "lowerUnit u =
     (if 0x41 \<le> u \<and> u \<le> 0x5A then u + 0x20 else if u = 0x212A then 0x6B else u)"

definition toLowerCase :: "jsstring \<Rightarrow> jsstring" where
  "toLowerCase s = map lowerUnit s"

text \<open>The white space of \<^verbatim>\<open>\s\<close> in a regular expression.\<close>

definition isSpace :: "unit16 \<Rightarrow> bool" where
  "isSpace u = ((0x09 \<le> u \<and> u \<le> 0x0D) \<or> u = 0x20 \<or> u = 0xA0 \<or> u = 0x1680
                \<or> (0x2000 \<le> u \<and> u \<le> 0x200A) \<or> u = 0x2028 \<or> u = 0x2029
                \<or> u = 0x202F \<or> u = 0x205F \<or> u = 0x3000 \<or> u = 0xFEFF)"

text \<open>
  \<^verbatim>\<open>fullContent.match(/https?:\/\/[^\s\)]+/g)\<close>: \<open>urlAt s\<close> is the length of the match
  that starts at the first unit of \<open>s\<close>, if there is one; \<open>matchUrls\<close> collects the
  matches from left to right, each search starting where the last match ended. No
  match at all (\<open>null\<close>) is the empty list: nothing is pushed then.
\<close>

definition urlAt :: "jsstring \<Rightarrow> nat option" where
  "urlAt s =
     (let n = (if startsWith s (lit ''https://'') then Some 8
               else if startsWith s (lit ''http://'') then Some 7 else None)
      in case n of
           None \<Rightarrow> None
         | Some k \<Rightarrow>
             (let body = takeWhile (\<lambda>u. \<not> isSpace u \<and> u \<noteq> 0x29) (drop k s)
              in if body = [] then None else Some (k + length body)))"

function matchUrls :: "jsstring \<Rightarrow> jsstring list" where
  "matchUrls [] = []"
| "matchUrls (c # cs) =
     (case urlAt (c # cs) of
        Some n \<Rightarrow> take n (c # cs) # matchUrls (drop (n - 1) cs)
      | None \<Rightarrow> matchUrls cs)"
  by pat_completeness auto
termination
  by (relation "measure length") auto

record excerpt =
  who :: jsstring
  what :: jsstring

record link =
  linkWho :: jsstring
  url :: jsstring

record summary =
  decisions :: "excerpt list"
  actions :: "excerpt list"
  links :: "link list"
  questions :: "excerpt list"

text \<open>The three tests of the loop body, on the lower-cased content.\<close>

definition isDecision :: "jsstring \<Rightarrow> bool" where
  "isDecision c =
     (includes_js c (lit ''decyzj'') \<or> includes_js c (lit ''decided'')
      \<or> includes_js c (lit ''let'' @ [0x27] @ lit ''s '')
      \<or> includes_js c (lit ''we'' @ [0x27] @ lit ''ll '')
      \<or> includes_js c (lit ''so:'') \<or> includes_js c (lit ''plan:'')
      \<or> includes_js c [0x2713] \<or> includes_js c [0x2705])"

definition isAction :: "jsstring \<Rightarrow> bool" where
  "isAction c =
     (includes_js c (lit ''todo'') \<or> includes_js c (lit ''task'')
      \<or> includes_js c (lit ''action'')
      \<or> includes_js c (lit ''i'' @ [0x27] @ lit ''ll '')
      \<or> includes_js c (lit ''will '') \<or> includes_js c (lit ''should ''))"

definition isQuestion :: "jsstring \<Rightarrow> bool" where
  "isQuestion c = (includes_js c (lit ''?'') \<and> \<not> includes_js c (lit ''http''))"

text \<open>The body of the loop of \<open>summarizeChannel\<close> for one message, on the four arrays.\<close>

definition summarizeMessage :: "summary \<Rightarrow> message \<Rightarrow> summary" where
  "summarizeMessage s msg =
     \<lparr>decisions =
        (if isDecision (toLowerCase (content msg))
         then decisions s @ [\<lparr>who = author msg, what = slice0 200 (content msg)\<rparr>]
         else decisions s),
      actions =
        (if isAction (toLowerCase (content msg))
         then actions s @ [\<lparr>who = author msg, what = slice0 200 (content msg)\<rparr>]
         else actions s),
      links =
        links s @ map (\<lambda>u. \<lparr>linkWho = author msg, url = u\<rparr>) (matchUrls (content msg)),
      questions =
        (if isQuestion (toLowerCase (content msg))
         then questions s @ [\<lparr>who = author msg, what = slice0 150 (content msg)\<rparr>]
         else questions s)\<rparr>"

definition summarizeChannel :: "message list \<Rightarrow> jsstring \<Rightarrow> summary" where
  "summarizeChannel messages channel =
     foldl summarizeMessage \<lparr>decisions = [], actions = [], links = [], questions = []\<rparr> messages"

text \<open>The lines that \<open>formatSummary\<close> pushes for one entry of each kind.\<close>

definition excerptBullet :: "excerpt \<Rightarrow> jsstring" where
  "excerptBullet d = lit ''- **'' @ who d @ lit ''**: '' @ slice0 150 (what d) @ lit ''...''"

definition linkBullet :: "link \<Rightarrow> jsstring" where
  "linkBullet l = lit ''- '' @ url l @ lit '' ('' @ linkWho l @ lit '')''"

definition questionBullet :: "excerpt \<Rightarrow> jsstring" where
  "questionBullet q = lit ''- **'' @ who q @ lit ''**: '' @ what q @ lit ''?''"

text \<open>
  One \<open>if\<close> block of \<open>formatSummary\<close>: nothing for an empty array, else the heading, an
  empty line, the bullets of the first \<open>cap\<close> entries and an empty line.
\<close>

definition pushSection ::
  "jsstring \<Rightarrow> nat \<Rightarrow> ('a \<Rightarrow> jsstring) \<Rightarrow> 'a list \<Rightarrow> jsstring list \<Rightarrow> jsstring list" where
  "pushSection heading cap bullet entries lines =
     (if length entries > 0
      then lines @ [heading, []] @ map bullet (slice0 cap entries) @ [[]]
      else lines)"

definition formatSummaryLines :: "jsstring \<Rightarrow> message list \<Rightarrow> summary \<Rightarrow> jsstring list" where
  "formatSummaryLines channel messages s =
     pushSection (lit ''## Open Questions'') 5 questionBullet (questions s)
       (pushSection (lit ''## Links Shared'') 10 linkBullet (links s)
         (pushSection (lit ''## Action Items'') 5 excerptBullet (actions s)
           (pushSection (lit ''## Key Decisions'') 5 excerptBullet (decisions s)
              [lit ''# '' @ channel @ [SPACE, EM_DASH, SPACE] @ lit ''Summary'',
               [],
               lit ''**Messages:** '' @ showNat (length messages),
               [],
               lit ''---'',
               []])))"

definition formatSummary :: "jsstring \<Rightarrow> message list \<Rightarrow> summary \<Rightarrow> jsstring" where
  "formatSummary channel messages s = join_js NL (formatSummaryLines channel messages s)"

text \<open>
  The body of a section in the pushed lines: the lines between the empty line after the
  heading and the next empty line.
\<close>

definition sectionBody :: "jsstring \<Rightarrow> jsstring list \<Rightarrow> jsstring list" where
  "sectionBody heading lines =
     takeWhile (\<lambda>l. l \<noteq> []) (drop 2 (dropWhile (\<lambda>l. l \<noteq> heading) lines))"

section \<open>The summarizer: the main loop\<close>

text \<open>\<open>s.replace(p, r)\<close> for a string pattern: the first occurrence only.\<close>

fun replace_js :: "jsstring \<Rightarrow> jsstring \<Rightarrow> jsstring \<Rightarrow> jsstring" where
  "replace_js [] p r = (if p = [] then r else [])"
| "replace_js (c # cs) p r =
     (if startsWith (c # cs) p then r @ drop (length p) (c # cs)
      else c # replace_js cs p r)"

text \<open>
  The directory of the day's transcripts and the directory of its summaries:
  \<open>logsListing\<close> is what \<open>readdirSync\<close> returns (\<open>None\<close> when the directory does not
  exist), \<open>logsFiles\<close> what \<open>readFileSync\<close> returns for a file name (\<open>None\<close> when it
  throws), \<open>summaryFiles\<close> the files of the summaries directory. An error in the loop
  body is caught and the loop goes on; what is printed on the console is left out.
\<close>

record summarizer_world =
  logsListing :: "jsstring list option"
  logsFiles :: "jsstring \<Rightarrow> jsstring option"
  summaryFiles :: "jsstring \<Rightarrow> jsstring option"

definition summarizeFile :: "summarizer_world \<Rightarrow> jsstring \<Rightarrow> summarizer_world" where
  "summarizeFile w file =
     (let channel = replace_js file (lit ''.md'') [] in
      case logsFiles w file of
        None \<Rightarrow> w
      | Some input \<Rightarrow>
          (let messages = parseTranscript input in
           if length messages < 3 then w
           else w\<lparr>summaryFiles := (summaryFiles w)
                    (file \<mapsto> formatSummary channel messages
                                 (summarizeChannel messages channel))\<rparr>))"

definition summarizerMain :: "summarizer_world \<Rightarrow> summarizer_world" where
  "summarizerMain w =
     (case logsListing w of
        None \<Rightarrow> w
      | Some listing \<Rightarrow>
          foldl summarizeFile w (filter (\<lambda>f. endsWith f (lit ''.md'')) listing))"

section \<open>Notions used in the statements\<close>

text \<open>The date part of \<open>toISOString\<close>, for a day number.\<close>

definition isoDate :: "int \<Rightarrow> jsstring" where
  "isoDate day =
     (case civilFromDays day of
        (y, m, d) \<Rightarrow> isoYear y @ lit ''-'' @ padZero 2 (nat m) @ lit ''-'' @ padZero 2 (nat d))"

text \<open>
  A message of the API that the transcript format can carry: its time of creation can
  be read, its author (as \<open>formatTranscript\<close> prints it) is not empty and has no line
  terminator, and its content is one line that begins neither with \<open>###\<close> and a space
  nor with \<open>#\<close> and a space.
\<close>

definition wellFormed :: "raw_message \<Rightarrow> bool" where
  "wellFormed msg =
     (createdAt msg \<noteq> None
      \<and> authorOf msg \<noteq> [] \<and> list_all (\<lambda>u. \<not> isLineTerminator u) (authorOf msg)
      \<and> NL \<notin> set (contentOf msg)
      \<and> \<not> startsWith (contentOf msg) (lit ''### '')
      \<and> \<not> startsWith (contentOf msg) (lit ''# ''))"

text \<open>
  What the decoder returns for an encoded message: the time and the author as they were
  written, and the content, followed by a newline unless it is empty.
\<close>

definition decodedAs :: "int \<Rightarrow> raw_message \<Rightarrow> message" where
  "decodedAs tz msg =
     \<lparr>time = timeOf tz msg, author = authorOf msg,
      content = (if contentOf msg = [] then [] else contentOf msg @ [NL])\<rparr>"

text \<open>
  \<open>encodedFields\<close>: the three values that \<open>formatTranscript\<close> writes for a message of
  the API, as a decoded message. \<open>asApiMessage\<close>: a decoded message read through the
  field names of the API, as \<open>formatTranscript\<close> would read the object: it has no
  \<open>createdAt\<close>, \<open>displayName\<close> or \<open>userId\<close>. \<open>withNewline\<close>: a message of the API
  with a newline after its content, unless the content is empty.
\<close>

definition encodedFields :: "int \<Rightarrow> raw_message \<Rightarrow> message" where
  "encodedFields tz msg = \<lparr>time = timeOf tz msg, author = authorOf msg, content = contentOf msg\<rparr>"

definition asApiMessage :: "message \<Rightarrow> raw_message" where
  "asApiMessage m = \<lparr>createdAt = None, displayName = None, userId = None, rawContent = Some (content m)\<rparr>"

definition withNewline :: "raw_message \<Rightarrow> raw_message" where
  "withNewline msg = msg\<lparr>rawContent := Some (if contentOf msg = [] then [] else contentOf msg @ [NL])\<rparr>"

text \<open>
  The content mentions \<open>http\<close> in any mix of upper and lower case: at some position
  stand an \<open>h\<close>, two \<open>t\<close> and a \<open>p\<close>, each small or capital.
\<close>

fun mentionsHttp :: "jsstring \<Rightarrow> bool" where
  "mentionsHttp (a # b # c # d # rest) =
     (((a = 0x68 \<or> a = 0x48) \<and> (b = 0x74 \<or> b = 0x54) \<and> (c = 0x74 \<or> c = 0x54)
        \<and> (d = 0x70 \<or> d = 0x50))
      \<or> mentionsHttp (b # c # d # rest))"
| "mentionsHttp [] = False"
| "mentionsHttp [a] = False"
| "mentionsHttp [a, b] = False"
| "mentionsHttp [a, b, c] = False"


text \<open>
  The rendered summary as text. \<open>summaryHeader\<close>: the title, the count of messages and
  the rule, each followed by an empty line. \<open>sectionText\<close>: nothing for no bullet; else
  an empty line, the heading, an empty line, and every bullet followed by a newline.
  \<open>capped\<close>: the four arrays cut to their first 5, 5, 10 and 5 entries.
\<close>

definition summaryHeader :: "jsstring \<Rightarrow> nat \<Rightarrow> jsstring" where
  "summaryHeader channel n =
     lit ''# '' @ channel @ [SPACE, EM_DASH, SPACE] @ lit ''Summary'' @ [NL, NL]
     @ lit ''**Messages:** '' @ showNat n @ [NL, NL]
     @ lit ''---'' @ [NL]"

definition sectionText :: "jsstring \<Rightarrow> jsstring list \<Rightarrow> jsstring" where
  "sectionText heading bullets =
     (if bullets = [] then []
      else [NL] @ heading @ [NL, NL] @ concat (map (\<lambda>b. b @ [NL]) bullets))"

definition capped :: "summary \<Rightarrow> summary" where
  "capped s = \<lparr>decisions = take 5 (decisions s), actions = take 5 (actions s),
               links = take 10 (links s), questions = take 5 (questions s)\<rparr>"


section \<open>Properties of the decoder\<close>

lemma split_js_nonempty: "split_js sep s \<noteq> []"
  by (induction s) (auto split: list.splits)

lemma split_js_no_sep: "sep \<notin> set l \<Longrightarrow> split_js sep l = [l]"
  by (induction l) auto

lemma split_js_append: "sep \<notin> set l \<Longrightarrow> split_js sep (l @ sep # s) = l # split_js sep s"
  by (induction l) auto

lemma split_join:
  "ls \<noteq> [] \<Longrightarrow> list_all (\<lambda>l. sep \<notin> set l) ls \<Longrightarrow> split_js sep (join_js sep ls) = ls"
proof (induction ls rule: join_js.induct)
  case (3 sep l l' ls)
  then show ?case by (simp add: split_js_append)
qed (simp_all add: split_js_no_sep)

lemma join_js_concat: "join_js sep (l # ls) = l @ concat (map ((#) sep) ls)"
  by (induction ls arbitrary: l) auto

text \<open>The content of the open message over lines that are no header.\<close>

lemma foldl_content_nonempty:
  "c \<noteq> [] \<Longrightarrow>
   foldl (\<lambda>c l. c @ (if c \<noteq> [] then [NL] else []) @ l) c ls = c @ concat (map ((#) NL) ls)"
  by (induction ls arbitrary: c) auto

lemma foldl_content_empty:
  "foldl (\<lambda>c l. c @ (if c \<noteq> [] then [NL] else []) @ l) [] ls = appended ls"
proof (induction ls)
  case Nil
  show ?case by (simp add: appended_def)
next
  case (Cons l ls)
  show ?case
  proof (cases "l = []")
    case True
    with Cons show ?thesis by (simp add: appended_def)
  next
    case False
    then show ?thesis
      using foldl_content_nonempty[of l ls] by (simp add: appended_def join_js_concat)
  qed
qed

lemma foldl_parseLine_body:
  "list_all (\<lambda>l. headerMatch l = None) post \<Longrightarrow>
   foldl parseLine (ms, Some m) post =
     (ms, Some (m\<lparr>content :=
                   foldl (\<lambda>c l. c @ (if c \<noteq> [] then [NL] else []) @ l) (content m)
                     (filter (\<lambda>l. \<not> startsWith l (lit ''# '')) post)\<rparr>))"
proof (induction post arbitrary: m)
  case Nil
  show ?case by simp
next
  case (Cons l post)
  then show ?case by (simp add: parseLine_def)
qed

text \<open>A header line closes what was read before it and opens a message of its own.\<close>

lemma parseLines_header:
  assumes h: "headerMatch h = Some (t, a)"
    and post: "list_all (\<lambda>l. headerMatch l = None) post"
  shows "parseLines (pre @ h # post) =
         parseLines pre @ [\<lparr>time = t, author = a,
            content = appended (filter (\<lambda>l. \<not> startsWith l (lit ''# '')) post)\<rparr>]"
proof -
  obtain ms cur where st: "foldl parseLine ([], None) pre = (ms, cur)"
    by (cases "foldl parseLine ([], None) pre")
  have "parseLine (ms, cur) h = (parseLines pre, Some \<lparr>time = t, author = a, content = []\<rparr>)"
    using h st by (simp add: parseLine_def parseLines_def)
  then show ?thesis
    using st foldl_parseLine_body[OF post, of "parseLines pre"
                "\<lparr>time = t, author = a, content = []\<rparr>"]
    by (simp add: parseLines_def[of "pre @ h # post"] pushCurrent_def foldl_content_empty)
qed

lemma parseLines_Nil: "parseLines [] = []"
  by (simp add: parseLines_def pushCurrent_def)

text \<open>
  Claim C8. A message that is still open at the end of the input is emitted. Whenever
  a line of the input is a message header and no line after it is one, the message that
  this header opens is the last message of the result, after the messages of the lines
  before it, and its content is made of all the lines after the header (but those that
  begin with \<open>#\<close> and a space).
\<close>

theorem parseTranscript_emits_trailing:
  assumes "split_js NL input = pre @ h # post"
    and "headerMatch h = Some (t, a)"
    and "list_all (\<lambda>l. headerMatch l = None) post"
  shows "parseTranscript input =
         parseLines pre @ [\<lparr>time = t, author = a,
            content = appended (filter (\<lambda>l. \<not> startsWith l (lit ''# '')) post)\<rparr>]"
  using assms parseLines_header[of h t a post pre] by (simp add: parseTranscript_def)

theorem parseTranscript_emits_trailing_witness:
  "split_js NL (lit ''### 09:30 '' @ [EM_DASH] @ lit '' bob'' @ [NL] @ lit ''hi'')
     = [] @ (lit ''### 09:30 '' @ [EM_DASH] @ lit '' bob'') # [lit ''hi'']
   \<and> headerMatch (lit ''### 09:30 '' @ [EM_DASH] @ lit '' bob'')
       = Some (lit ''09:30'', lit ''bob'')
   \<and> list_all (\<lambda>l. headerMatch l = None) [lit ''hi'']
   \<and> parseTranscript (lit ''### 09:30 '' @ [EM_DASH] @ lit '' bob'' @ [NL] @ lit ''hi'')
       = [\<lparr>time = lit ''09:30'', author = lit ''bob'', content = lit ''hi''\<rparr>]"
proof -
  have s: "split_js NL (lit ''### 09:30 '' @ [EM_DASH] @ lit '' bob'' @ [NL] @ lit ''hi'')
     = [] @ (lit ''### 09:30 '' @ [EM_DASH] @ lit '' bob'') # [lit ''hi'']"
    by (simp add: lit_def)
  have h: "headerMatch (lit ''### 09:30 '' @ [EM_DASH] @ lit '' bob'')
           = Some (lit ''09:30'', lit ''bob'')"
    by (simp add: headerMatch_def lit_def startsWith_def isDigit_def isLineTerminator_def)
  have p: "list_all (\<lambda>l. headerMatch l = None) [lit ''hi'']"
    by (simp add: headerMatch_def lit_def startsWith_def)
  have a: "appended (filter (\<lambda>l. \<not> startsWith l (lit ''# '')) [lit ''hi'']) = lit ''hi''"
    by (simp add: appended_def startsWith_def lit_def)
  show ?thesis
    using parseTranscript_emits_trailing[OF s h p] s h p a by (simp add: parseLines_Nil)
qed

section \<open>Properties of the formats of numbers and dates\<close>

lemma digit_cases: "d < 10 \<Longrightarrow> d = 0 \<or> d = 1 \<or> d = 2 \<or> d = 3 \<or> d = 4 \<or> d = 5 \<or> d = 6 \<or> d = 7 \<or> d = 8 \<or> d = (9::nat)"
  by arith

lemma isDigit_digitUnit: "d < 10 \<Longrightarrow> isDigit (digitUnit d)"
  using digit_cases[of d] by (auto simp: isDigit_def digitUnit_def)

lemma showNat_small: "n < 10 \<Longrightarrow> showNat n = [digitUnit n]"
  by (subst showNat.simps) simp

lemma showNat_big: "10 \<le> n \<Longrightarrow> showNat n = showNat (n div 10) @ [digitUnit (n mod 10)]"
  by (subst showNat.simps) simp

lemma showNat_digits: "list_all isDigit (showNat n)"
proof (induction n rule: showNat.induct)
  case (1 n)
  show ?case
  proof (cases "n < 10")
    case True
    then show ?thesis by (simp add: showNat_small isDigit_digitUnit)
  next
    case False
    then show ?thesis using 1 by (simp add: showNat_big isDigit_digitUnit)
  qed
qed

lemma padZero_digits: "list_all isDigit (padZero w n)"
  using showNat_digits[of n] isDigit_digitUnit[of 0]
  by (auto simp: padZero_def list_all_iff)

lemma isoYear_chars: "list_all (\<lambda>u. isDigit u \<or> u = 0x2D \<or> u = 0x2B) (isoYear y)"
  using padZero_digits[of 4 "nat y"] padZero_digits[of 6 "nat y"] padZero_digits[of 6 "nat (- y)"]
  by (auto simp: isoYear_def lit_def list_all_iff)

lemma isoDate_chars: "list_all (\<lambda>u. isDigit u \<or> u = 0x2D \<or> u = 0x2B) (isoDate day)"
proof -
  obtain y m d where c: "civilFromDays day = (y, m, d)" by (cases "civilFromDays day")
  show ?thesis
    using isoYear_chars[of y] padZero_digits[of 2 "nat m"] padZero_digits[of 2 "nat d"] c
    by (auto simp: isoDate_def lit_def list_all_iff)
qed

lemma isoDate_no: "u \<in> set (isoDate day) \<Longrightarrow> u \<noteq> NL \<and> u \<noteq> 0x54"
  using isoDate_chars[of day] by (auto simp: list_all_iff isDigit_def)

lemma toISOString_split: "\<exists>rest. toISOString t = isoDate (t div msPerDay) @ 0x54 # rest"
  by (auto simp: toISOString_def isoDate_def lit_def Let_def split: prod.splits)

lemma dateStr_isoDate: "first0 (split_js 0x54 (toISOString t)) = isoDate (t div msPerDay)"
proof -
  obtain rest where r: "toISOString t = isoDate (t div msPerDay) @ 0x54 # rest"
    using toISOString_split by blast
  have "0x54 \<notin> set (isoDate (t div msPerDay))" using isoDate_no by blast
  then show ?thesis by (simp add: r split_js_append first0_def)
qed

lemma padZero2: "n < 100 \<Longrightarrow> padZero 2 n = [digitUnit (n div 10), digitUnit (n mod 10)]"
proof (cases "n < 10")
  case True
  then show ?thesis by (simp add: padZero_def showNat_small)
next
  case False
  assume "n < 100"
  with False have "n div 10 < 10" by simp
  with False show ?thesis by (simp add: padZero_def showNat_big showNat_small)
qed

lemma isTime_toLocaleTimeString: "isTime (toLocaleTimeString tz (Some t))"
proof -
  define r where "r = nat (localTime tz t mod msPerDay)"
  have "r < 86400000" unfolding r_def by simp
  then have h: "r div 3600000 < 24" by simp
  have m: "r div 60000 mod 60 < 60" by simp
  have "padZero 2 (r div 3600000) = [digitUnit (r div 3600000 div 10), digitUnit (r div 3600000 mod 10)]"
    using h by (intro padZero2) simp
  moreover have "padZero 2 (r div 60000 mod 60) = [digitUnit (r div 60000 mod 60 div 10), digitUnit (r div 60000 mod 60 mod 10)]"
    by (intro padZero2) simp
  moreover have "r div 3600000 div 10 < 10" using h by simp
  moreover have "r div 60000 mod 60 div 10 < 10" using m by simp
  ultimately show ?thesis
    by (simp add: toLocaleTimeString_def r_def[symmetric] Let_def isDigit_digitUnit)
qed

section \<open>Encoding, then decoding\<close>

lemma headerMatch_header:
  assumes "isTime tm" "au \<noteq> []" "list_all (\<lambda>u. \<not> isLineTerminator u) au"
  shows "headerMatch (lit ''### '' @ tm @ [SPACE, EM_DASH, SPACE] @ au) = Some (tm, au)"
proof -
  obtain a b c d e where tm: "tm = [a, b, c, d, e]"
    using assms(1) by (auto elim: isTime.elims)
  show ?thesis
    using assms by (simp add: tm headerMatch_def lit_def startsWith_def)
qed

lemma headerMatch_not_hashes: "\<not> startsWith l (lit ''### '') \<Longrightarrow> headerMatch l = None"
  by (simp add: headerMatch_def)

lemma headerMatch_heading: "headerMatch (lit ''# '' @ x) = None"
  by (simp add: headerMatch_def lit_def startsWith_def)

lemma foldl_parseLine_idle:
  "list_all (\<lambda>l. headerMatch l = None) ls \<Longrightarrow> foldl parseLine (ms, None) ls = (ms, None)"
  by (induction ls) (simp_all add: parseLine_def)

lemma parseLines_idle: "list_all (\<lambda>l. headerMatch l = None) ls \<Longrightarrow> parseLines ls = []"
  by (simp add: parseLines_def foldl_parseLine_idle pushCurrent_def)

lemma foldl_blocks: "foldl (\<lambda>lines msg. lines @ f msg) init ms = init @ concat (map f ms)"
  by (induction ms arbitrary: init) auto

lemma appended_block:
  "\<not> startsWith c (lit ''# '') \<Longrightarrow>
   appended (filter (\<lambda>l. \<not> startsWith l (lit ''# '')) [[], c, []]) = (if c = [] then [] else c @ [NL])"
  by (simp add: appended_def startsWith_def lit_def)

lemma parseLines_blocks:
  assumes "list_all wellFormed ms" and "parseLines pre = []"
  shows "parseLines (pre @ concat (map (transcriptBlock tz) ms)) = map (decodedAs tz) ms"
  using assms(1)
proof (induction ms rule: rev_induct)
  case Nil
  show ?case using assms(2) by simp
next
  case (snoc m ms)
  then have wf: "wellFormed m" and IH: "parseLines (pre @ concat (map (transcriptBlock tz) ms)) = map (decodedAs tz) ms"
    by simp_all
  obtain t where t: "createdAt m = Some t" using wf by (auto simp: wellFormed_def)
  have tm: "isTime (timeOf tz m)" by (simp add: timeOf_def t isTime_toLocaleTimeString)
  have h: "headerMatch (lit ''### '' @ timeOf tz m @ [SPACE, EM_DASH, SPACE] @ authorOf m) = Some (timeOf tz m, authorOf m)"
    using wf tm by (intro headerMatch_header) (simp_all add: wellFormed_def)
  have e: "headerMatch [] = None" by (simp add: headerMatch_def startsWith_def lit_def)
  have post: "list_all (\<lambda>l. headerMatch l = None) [[], contentOf m, []]"
    using wf e by (simp add: wellFormed_def headerMatch_not_hashes)
  have nh: "\<not> startsWith (contentOf m) (lit ''# '')"
    using wf by (simp add: wellFormed_def)
  have app: "appended (filter (\<lambda>l. \<not> startsWith l (lit ''# '')) [[], contentOf m, []])
             = content (decodedAs tz m)"
    unfolding appended_block[OF nh] by (simp add: decodedAs_def)
  have "parseLines ((pre @ concat (map (transcriptBlock tz) ms))
                    @ (lit ''### '' @ timeOf tz m @ [SPACE, EM_DASH, SPACE] @ authorOf m)
                      # [[], contentOf m, []])
        = map (decodedAs tz) ms @ [decodedAs tz m]"
    unfolding parseLines_header[OF h post] app IH by (simp add: decodedAs_def)
  moreover have "transcriptBlock tz m
        = (lit ''### '' @ timeOf tz m @ [SPACE, EM_DASH, SPACE] @ authorOf m)
          # [[], contentOf m, []]"
    by (simp add: transcriptBlock_def)
  ultimately show ?case by simp
qed

lemma formatTranscript_lines:
  "formatTranscript tz now ms channel =
     join_js NL ([lit ''# '' @ channel @ [SPACE, EM_DASH, SPACE] @ isoDate (now div msPerDay), []]
                 @ concat (map (transcriptBlock tz) ms))"
  by (simp add: formatTranscript_def foldl_blocks dateStr_isoDate)

lemma block_no_NL:
  assumes "wellFormed m" shows "list_all (\<lambda>l. NL \<notin> set l) (transcriptBlock tz m)"
proof -
  obtain t where t: "createdAt m = Some t" using assms by (auto simp: wellFormed_def)
  have "isTime (timeOf tz m)" by (simp add: timeOf_def t isTime_toLocaleTimeString)
  then obtain a b c d e where tm: "timeOf tz m = [a, b, c, d, e]" "isDigit a" "isDigit b" "c = COLON" "isDigit d" "isDigit e"
    by (auto elim: isTime.elims)
  have "NL \<notin> set (timeOf tz m)" using tm by (auto simp: isDigit_def)
  moreover have "NL \<notin> set (authorOf m)" using assms by (auto simp: wellFormed_def list_all_iff isLineTerminator_def)
  moreover have "NL \<notin> set (contentOf m)" using assms by (simp add: wellFormed_def)
  ultimately show ?thesis by (simp add: transcriptBlock_def lit_def)
qed

lemma parse_format:
  assumes wf: "list_all wellFormed ms" and ch: "NL \<notin> set channel"
  shows "parseTranscript (formatTranscript tz now ms channel) = map (decodedAs tz) ms"
proof -
  let ?top = "lit ''# '' @ channel @ [SPACE, EM_DASH, SPACE] @ isoDate (now div msPerDay)"
  let ?lines = "[?top, []] @ concat (map (transcriptBlock tz) ms)"
  have "NL \<notin> set ?top" using ch isoDate_no[of NL "now div msPerDay"] by (auto simp: lit_def)
  moreover have "list_all (\<lambda>l. NL \<notin> set l) (concat (map (transcriptBlock tz) ms))"
    using wf block_no_NL by (induction ms) (auto simp: list_all_iff)
  ultimately have "list_all (\<lambda>l. NL \<notin> set l) ?lines" by simp
  then have s: "split_js NL (join_js NL ?lines) = ?lines" by (intro split_join) simp_all
  have "parseLines [?top, []] = []"
    by (intro parseLines_idle) (simp add: headerMatch_heading, simp add: headerMatch_def startsWith_def lit_def)
  then have "parseLines ?lines = map (decodedAs tz) ms"
    using parseLines_blocks[OF wf] by blast
  then show ?thesis
    by (simp only: parseTranscript_def formatTranscript_lines s)
qed

lemma padZero2_0: "padZero 2 0 = [0x30, 0x30]"
  by (simp add: padZero2 digitUnit_def)

lemma timeOf_epoch: "toLocaleTimeString 0 (Some 0) = lit ''00:00''"
  by (simp add: toLocaleTimeString_def localTime_def padZero2_0 lit_def)

lemma timeOf_nextday: "toLocaleTimeString 0 (Some 86400000) = lit ''00:00''"
  by (simp add: toLocaleTimeString_def localTime_def padZero2_0 lit_def)

lemma general_no_NL: "NL \<notin> set (lit ''general'')"
  by (simp add: lit_def)

lemma wellFormed_bob:
  "wellFormed \<lparr>createdAt = Some 0, displayName = Some (lit ''bob''), userId = None, rawContent = Some (lit ''hi'')\<rparr>"
  by (simp add: wellFormed_def authorOf_def contentOf_def orElse_def templ_def lit_def startsWith_def isLineTerminator_def)

lemma decodedAs_bob:
  "decodedAs 0 \<lparr>createdAt = Some 0, displayName = Some (lit ''bob''), userId = None, rawContent = Some (lit ''hi'')\<rparr>
   = \<lparr>time = lit ''00:00'', author = lit ''bob'', content = lit ''hi'' @ [NL]\<rparr>"
  by (simp add: decodedAs_def timeOf_def timeOf_epoch authorOf_def contentOf_def orElse_def templ_def lit_def)

lemma toLocaleTimeString_None: "toLocaleTimeString tz None = lit ''Invalid Date''"
  by (simp add: toLocaleTimeString_def)

lemma parse_bob:
  "parseTranscript (formatTranscript 0 0 [\<lparr>createdAt = Some 0, displayName = Some (lit ''bob''), userId = None, rawContent = Some (lit ''hi'')\<rparr>] (lit ''general''))
   = [\<lparr>time = lit ''00:00'', author = lit ''bob'', content = lit ''hi'' @ [NL]\<rparr>]"
proof -
  have w: "list_all wellFormed [\<lparr>createdAt = Some 0, displayName = Some (lit ''bob''), userId = None, rawContent = Some (lit ''hi'')\<rparr>]"
    by (simp add: wellFormed_bob)
  show ?thesis
    using parse_format[OF w general_no_NL, of 0 0] by (simp add: decodedAs_bob)
qed


text \<open>
  Claim C1, as amended. For every list of well-formed messages, decoding the encoded
  transcript returns one message for each, in order, with the time and the author that
  were encoded; the content comes back followed by one newline (the empty line that the
  encoder writes after the content is appended to it), and unchanged only when it is
  empty.
\<close>

theorem decode_encode_fields:
  assumes "list_all wellFormed ms" and "NL \<notin> set channel"
  shows "parseTranscript (formatTranscript tz now ms channel) = map (decodedAs tz) ms"
  using assms by (rule parse_format)


theorem decode_encode_fields_witness:
  "list_all wellFormed [\<lparr>createdAt = Some 0, displayName = Some (lit ''bob''), userId = None, rawContent = Some (lit ''hi'')\<rparr>]
   \<and> NL \<notin> set (lit ''general'')
   \<and> parseTranscript (formatTranscript 0 0 [\<lparr>createdAt = Some 0, displayName = Some (lit ''bob''), userId = None, rawContent = Some (lit ''hi'')\<rparr>] (lit ''general''))
      = [\<lparr>time = lit ''00:00'', author = lit ''bob'', content = lit ''hi'' @ [NL]\<rparr>]"
proof -
  have w: "list_all wellFormed [\<lparr>createdAt = Some 0, displayName = Some (lit ''bob''), userId = None, rawContent = Some (lit ''hi'')\<rparr>]"
    by (simp add: wellFormed_bob)
  show ?thesis
    using decode_encode_fields[OF w general_no_NL, of 0 0] w general_no_NL
    by (simp add: decodedAs_bob)
qed


text \<open>
  The claim as stated fails: the content \<open>hi\<close> comes back as \<open>hi\<close> and a newline.
\<close>

theorem decode_encode_counterexample:
  "list_all wellFormed [\<lparr>createdAt = Some 0, displayName = Some (lit ''bob''), userId = None, rawContent = Some (lit ''hi'')\<rparr>]
   \<and> parseTranscript (formatTranscript 0 0 [\<lparr>createdAt = Some 0, displayName = Some (lit ''bob''), userId = None, rawContent = Some (lit ''hi'')\<rparr>] (lit ''general''))
      \<noteq> map (encodedFields 0) [\<lparr>createdAt = Some 0, displayName = Some (lit ''bob''), userId = None, rawContent = Some (lit ''hi'')\<rparr>]"
proof -
  have w: "list_all wellFormed [\<lparr>createdAt = Some 0, displayName = Some (lit ''bob''), userId = None, rawContent = Some (lit ''hi'')\<rparr>]"
    by (simp add: wellFormed_bob)
  show ?thesis
    using parse_format[OF w general_no_NL, of 0 0] w
    by (simp add: decodedAs_bob encodedFields_def contentOf_def orElse_def templ_def)
qed

section \<open>Encoding again what was decoded\<close>

lemma formatTranscript_fields:
  assumes "map (encodedFields tz) a = map (encodedFields tz) b"
  shows "formatTranscript tz now a channel = formatTranscript tz now b channel"
proof -
  define g where "g = (\<lambda>f :: message. [lit ''### '' @ time f @ [SPACE, EM_DASH, SPACE] @ author f,
                            [], content f, []])"
  have "transcriptBlock tz = g \<circ> encodedFields tz"
    by (simp add: fun_eq_iff g_def transcriptBlock_def encodedFields_def)
  then have m: "map (transcriptBlock tz) ms = map g (map (encodedFields tz) ms)" for ms
    by simp
  have "map (transcriptBlock tz) a = map (transcriptBlock tz) b"
    unfolding m assms ..
  then show ?thesis by (simp add: formatTranscript_lines)
qed

lemma encodedFields_withNewline: "encodedFields tz (withNewline m) = decodedAs tz m"
  by (simp add: encodedFields_def withNewline_def decodedAs_def timeOf_def authorOf_def contentOf_def orElse_def templ_def)

lemma withNewline_empty: "contentOf m = [] \<Longrightarrow> encodedFields tz (withNewline m) = encodedFields tz m"
  unfolding encodedFields_withNewline by (simp add: decodedAs_def encodedFields_def)

text \<open>
  Claim C2, as amended. The encoded text depends on the messages through their time,
  author and content only. For every list of well-formed messages, encoding messages
  that carry the decoded time, author and content gives the text of the original
  messages with a newline added after each content that is not empty; it is the
  original text when every content is empty.
\<close>

theorem reencode_decoded:
  assumes "list_all wellFormed ms" and "NL \<notin> set channel"
    and "map (encodedFields tz) ms' = parseTranscript (formatTranscript tz now ms channel)"
  shows "formatTranscript tz now ms' channel = formatTranscript tz now (map withNewline ms) channel
         \<and> (list_all (\<lambda>m. contentOf m = []) ms \<longrightarrow>
              formatTranscript tz now ms' channel = formatTranscript tz now ms channel)"
proof -
  have f: "map (encodedFields tz) ms' = map (encodedFields tz) (map withNewline ms)"
    using assms(3) parse_format[OF assms(1,2), of tz now] by (simp add: encodedFields_withNewline)
  have 1: "formatTranscript tz now ms' channel = formatTranscript tz now (map withNewline ms) channel"
    using f by (rule formatTranscript_fields)
  have 2: "formatTranscript tz now ms' channel = formatTranscript tz now ms channel"
    if "list_all (\<lambda>m. contentOf m = []) ms"
  proof -
    have "map (encodedFields tz) (map withNewline ms) = map (encodedFields tz) ms"
      using that by (induction ms) (simp_all add: withNewline_empty)
    with f show ?thesis by (intro formatTranscript_fields) simp
  qed
  show ?thesis using 1 2 by blast
qed

theorem reencode_decoded_witness:
  "list_all wellFormed [\<lparr>createdAt = Some 0, displayName = Some (lit ''bob''), userId = None, rawContent = Some (lit ''hi'')\<rparr>]
   \<and> NL \<notin> set (lit ''general'')
   \<and> map (encodedFields 0) [\<lparr>createdAt = Some 86400000, displayName = None, userId = Some (lit ''bob''), rawContent = Some (lit ''hi'' @ [NL])\<rparr>]
     = parseTranscript (formatTranscript 0 0 [\<lparr>createdAt = Some 0, displayName = Some (lit ''bob''), userId = None, rawContent = Some (lit ''hi'')\<rparr>] (lit ''general''))
   \<and> formatTranscript 0 0 [\<lparr>createdAt = Some 86400000, displayName = None, userId = Some (lit ''bob''), rawContent = Some (lit ''hi'' @ [NL])\<rparr>] (lit ''general'')
     = formatTranscript 0 0 (map withNewline [\<lparr>createdAt = Some 0, displayName = Some (lit ''bob''), userId = None, rawContent = Some (lit ''hi'')\<rparr>]) (lit ''general'')"
proof -
  have w: "list_all wellFormed [\<lparr>createdAt = Some 0, displayName = Some (lit ''bob''), userId = None, rawContent = Some (lit ''hi'')\<rparr>]"
    by (simp add: wellFormed_bob)
  have f: "map (encodedFields 0) [\<lparr>createdAt = Some 86400000, displayName = None, userId = Some (lit ''bob''), rawContent = Some (lit ''hi'' @ [NL])\<rparr>]
     = parseTranscript (formatTranscript 0 0 [\<lparr>createdAt = Some 0, displayName = Some (lit ''bob''), userId = None, rawContent = Some (lit ''hi'')\<rparr>] (lit ''general''))"
    unfolding parse_bob
    by (simp add: encodedFields_def timeOf_def timeOf_nextday authorOf_def contentOf_def orElse_def templ_def lit_def)
  show ?thesis
    using reencode_decoded[OF w general_no_NL f] w general_no_NL f by blast
qed

text \<open>
  The claim as stated fails: \<open>formatTranscript\<close> on the decoded messages themselves
  prints an invalid date and \<open>undefined\<close> for the author; and on messages that carry
  the decoded fields it prints the content \<open>hi\<close> with one more newline.
\<close>

theorem reencode_counterexample:
  "formatTranscript 0 0
     (map asApiMessage
        (parseTranscript (formatTranscript 0 0 [\<lparr>createdAt = Some 0, displayName = Some (lit ''bob''), userId = None, rawContent = Some (lit ''hi'')\<rparr>] (lit ''general''))))
     (lit ''general'')
   \<noteq> formatTranscript 0 0 [\<lparr>createdAt = Some 0, displayName = Some (lit ''bob''), userId = None, rawContent = Some (lit ''hi'')\<rparr>] (lit ''general'')
   \<and> map (encodedFields 0) [\<lparr>createdAt = Some 0, displayName = Some (lit ''bob''), userId = None, rawContent = Some (lit ''hi'' @ [NL])\<rparr>]
     = parseTranscript (formatTranscript 0 0 [\<lparr>createdAt = Some 0, displayName = Some (lit ''bob''), userId = None, rawContent = Some (lit ''hi'')\<rparr>] (lit ''general''))
   \<and> formatTranscript 0 0 [\<lparr>createdAt = Some 0, displayName = Some (lit ''bob''), userId = None, rawContent = Some (lit ''hi'' @ [NL])\<rparr>] (lit ''general'')
   \<noteq> formatTranscript 0 0 [\<lparr>createdAt = Some 0, displayName = Some (lit ''bob''), userId = None, rawContent = Some (lit ''hi'')\<rparr>] (lit ''general'')"
  unfolding parse_bob
  by (simp add: formatTranscript_lines transcriptBlock_def asApiMessage_def encodedFields_def
      timeOf_def timeOf_epoch toLocaleTimeString_None authorOf_def contentOf_def orElse_def templ_def)
    (simp add: lit_def)


section \<open>The date window\<close>

lemma civil_19797: "civilFromDays 19797 = (2024, 3, 15)"
  unfolding civilFromDays_def Let_def by simp

lemma days_2024_3_14: "daysFromCivil 2024 3 14 = 19796"
  unfolding daysFromCivil_def Let_def by simp

lemma civil_19796: "civilFromDays 19796 = (2024, 3, 14)"
  unfolding civilFromDays_def Let_def by simp

lemma civil_19795: "civilFromDays 19795 = (2024, 3, 13)"
  unfolding civilFromDays_def Let_def by simp

lemma replicate_2: "replicate 2 x = [x, x]"
  by (simp add: numeral_2_eq_2)

lemma replicate_3: "replicate 3 x = [x, x, x]"
  by (simp add: numeral_3_eq_3)

lemma padZero_eval:
  "padZero 4 2024 = lit ''2024''" "padZero 2 3 = lit ''03''" "padZero 2 14 = lit ''14''"
  "padZero 2 13 = lit ''13''" "padZero 2 18 = lit ''18''" "padZero 2 45 = lit ''45''"
  "padZero 2 0 = lit ''00''" "padZero 3 0 = lit ''000''"
  by (simp_all add: padZero_def showNat_small showNat_big digitUnit_def lit_def replicate_2 replicate_3)

lemma isoDate_19796: "isoDate 19796 = lit ''2024-03-14''"
  by (simp add: isoDate_def civil_19796 isoYear_def padZero_eval) (simp add: lit_def)

lemma isoDate_19795: "isoDate 19795 = lit ''2024-03-13''"
  by (simp add: isoDate_def civil_19795 isoYear_def padZero_eval) (simp add: lit_def)

text \<open>The window for a clock reading on the local day 2024-03-15 (day 19797).\<close>

lemma getDateRange_local_day:
  assumes "localTime tz now div msPerDay = 19797"
  shows "getDateRange tz now =
         \<lparr>afterStr = toISOString (1710387900000 - tz * msPerMinute),
          beforeStr = toISOString (1710471600000 - tz * msPerMinute),
          dateStr = isoDate ((1710387900000 - tz * msPerMinute) div msPerDay)\<rparr>"
proof -
  have t: "setHours tz now 3 0 0 0 = 1710471600000 - tz * msPerMinute"
    using assms by (simp add: setHours_def utcOfLocal_def)
  have l: "localTime tz (x - tz * msPerMinute) = x" for x
    by (simp add: localTime_def)
  have g: "getDate tz (1710471600000 - tz * msPerMinute) = 15"
    by (simp add: getDate_def l civil_19797)
  have s: "setDate tz (1710471600000 - tz * msPerMinute) 14 = 1710385200000 - tz * msPerMinute"
    by (simp add: setDate_def l civil_19797 days_2024_3_14 utcOfLocal_def)
  have y: "setHours tz (1710385200000 - tz * msPerMinute) 3 45 0 0
           = 1710387900000 - tz * msPerMinute"
    by (simp add: setHours_def l utcOfLocal_def)
  show ?thesis
    by (simp add: getDateRange_def Let_def t g s y dateStr_isoDate)
qed

lemma toISOString_after_tokyo: "toISOString 1710355500000 = lit ''2024-03-13T18:45:00.000Z''"
proof -
  have d: "(1710355500000::int) div msPerDay = 19795" by simp
  have r: "nat ((1710355500000::int) mod msPerDay) = 67500000" by simp
  show ?thesis
    unfolding toISOString_def d r Let_def civil_19795
    by (simp add: isoYear_def padZero_eval) (simp add: lit_def)
qed

lemma toISOString_before_tokyo: "toISOString 1710439200000 = lit ''2024-03-14T18:00:00.000Z''"
proof -
  have d: "(1710439200000::int) div msPerDay = 19796" by simp
  have r: "nat ((1710439200000::int) mod msPerDay) = 64800000" by simp
  show ?thesis
    unfolding toISOString_def d r Let_def civil_19796
    by (simp add: isoYear_def padZero_eval) (simp add: lit_def)
qed


text \<open>
  In a time zone at most 3 hours 45 minutes east of UTC, a run at 10:00 local time on
  2024-03-15 labels the window with the local date of its lower end, 2024-03-14.
\<close>

lemma getDateRange_label_west:
  assumes "localTime tz now = 19797 * msPerDay + 10 * msPerHour" and "- 720 \<le> tz" and "tz \<le> 225"
  shows "dateStr (getDateRange tz now) = lit ''2024-03-14''"
proof -
  have l: "localTime tz now div msPerDay = 19797"
    using assms(1) by simp
  have "(1710387900000 - tz * msPerMinute) div msPerDay = 19796"
    using assms(2,3) by arith
  then show ?thesis
    unfolding getDateRange_local_day[OF l] by (simp add: isoDate_19796)
qed


text \<open>
  Claim C3. For the reference instant 2024-03-15T10:00:00 local time the window is from
  2024-03-14T03:45:00 to 2024-03-15T03:00:00 local time and its label is the calendar
  date of the lower end, 2024-03-14. The two ends are computed in local time, but the
  label is cut from \<open>toISOString\<close>, which prints the date in UTC: in a time zone nine
  hours east of UTC (offset 540 minutes) the clock reading 1710464400000 is
  2024-03-15T10:00:00 local time, the lower end is 2024-03-14T03:45:00 local time
  (2024-03-13T18:45:00Z), and the label is 2024-03-13.
\<close>

theorem getDateRange_east_of_utc:
  "localTime 540 1710464400000 = 19797 * msPerDay + 10 * msPerHour
   \<and> getDateRange 540 1710464400000 =
       \<lparr>afterStr = lit ''2024-03-13T18:45:00.000Z'',
        beforeStr = lit ''2024-03-14T18:00:00.000Z'',
        dateStr = lit ''2024-03-13''\<rparr>
   \<and> isoDate (localTime 540 1710355500000 div msPerDay) = lit ''2024-03-14''"
proof -
  have l: "localTime 540 1710464400000 div msPerDay = 19797"
    by (simp add: localTime_def)
  show ?thesis
    unfolding getDateRange_local_day[OF l]
    by (simp add: localTime_def toISOString_after_tokyo toISOString_before_tokyo
        isoDate_19795 isoDate_19796)
qed


section \<open>The clock\<close>

lemma civil_0: "civilFromDays 0 = (1970, 1, 1)"
  unfolding civilFromDays_def Let_def by simp

lemma civil_1: "civilFromDays 1 = (1970, 1, 2)"
  unfolding civilFromDays_def Let_def by simp

lemma isoDate_0: "isoDate 0 = lit ''1970-01-01''"
  by (simp add: isoDate_def civil_0 isoYear_def padZero_def showNat_small showNat_big digitUnit_def replicate_2 replicate_3)
     (simp add: lit_def)

lemma isoDate_1: "isoDate 1 = lit ''1970-01-02''"
  by (simp add: isoDate_def civil_1 isoYear_def padZero_def showNat_small showNat_big digitUnit_def replicate_2 replicate_3)
     (simp add: lit_def)

lemma formatTranscript_day: 
  "now div msPerDay = now' div msPerDay \<Longrightarrow>
   formatTranscript tz now ms channel = formatTranscript tz now' ms channel"
  by (simp add: formatTranscript_lines)

lemma getDateRange_day:
  "localTime tz now div msPerDay = localTime tz now' div msPerDay \<Longrightarrow>
   getDateRange tz now = getDateRange tz now'"
  by (simp add: getDateRange_def setHours_def)


text \<open>
  Claim C9, as amended. \<open>formatTranscript\<close> and \<open>getDateRange\<close> have no parameter for
  the reference instant: each reads the clock when it runs. With the same arguments,
  \<open>formatTranscript\<close> returns the same text for two clock readings of the same UTC day,
  and \<open>getDateRange\<close> the same window for two clock readings of the same local day.
\<close>

theorem clock_reading_day:
  "(now div msPerDay = now' div msPerDay \<longrightarrow>
      formatTranscript tz now ms channel = formatTranscript tz now' ms channel)
   \<and> (localTime tz now div msPerDay = localTime tz now' div msPerDay \<longrightarrow>
      getDateRange tz now = getDateRange tz now')"
  using formatTranscript_day getDateRange_day by blast


theorem clock_reading_day_witness:
  "(0::int) div msPerDay = 3600000 div msPerDay
   \<and> formatTranscript 0 0 [] (lit ''general'') = formatTranscript 0 3600000 [] (lit ''general'')
   \<and> localTime 0 0 div msPerDay = localTime 0 3600000 div msPerDay
   \<and> getDateRange 0 0 = getDateRange 0 3600000"
  using clock_reading_day[of 0 3600000 0 "[]" "lit ''general''"]
  by (simp add: localTime_def)


text \<open>
  The claim as stated fails: the same channel and messages, encoded a day later, give
  another text, and the window computed a day later is another window.
\<close>

theorem clock_reading_counterexample:
  "formatTranscript 0 0 [] (lit ''general'') \<noteq> formatTranscript 0 86400000 [] (lit ''general'')
   \<and> dateStr (getDateRange 0 86400000) = lit ''1970-01-01''
   \<and> getDateRange 0 0 \<noteq> getDateRange 0 86400000"
proof -
  have a: "formatTranscript 0 0 [] (lit ''general'') \<noteq> formatTranscript 0 86400000 [] (lit ''general'')"
    by (simp add: formatTranscript_lines isoDate_0 isoDate_1) (simp add: lit_def)
  have c: "civilFromDays (-1) = (1969, 12, 31)"
    unfolding civilFromDays_def Let_def by simp
  have d0: "daysFromCivil 1970 1 0 = - 1"
    unfolding daysFromCivil_def Let_def by simp
  have d1: "daysFromCivil 1970 1 1 = 0"
    unfolding daysFromCivil_def Let_def by simp
  have i: "isoDate (- 1) = lit ''1969-12-31''"
    by (simp add: isoDate_def c isoYear_def padZero_def showNat_small showNat_big digitUnit_def replicate_2 replicate_3)
       (simp add: lit_def)
  have g0: "dateStr (getDateRange 0 0) = lit ''1969-12-31''"
    by (simp add: getDateRange_def Let_def setHours_def setDate_def getDate_def localTime_def
        utcOfLocal_def civil_0 d0 dateStr_isoDate i)
  have g1: "dateStr (getDateRange 0 86400000) = lit ''1970-01-01''"
    by (simp add: getDateRange_def Let_def setHours_def setDate_def getDate_def localTime_def
        utcOfLocal_def civil_1 d1 dateStr_isoDate isoDate_0)
  have "dateStr (getDateRange 0 0) \<noteq> dateStr (getDateRange 0 86400000)"
    unfolding g0 g1 by (simp add: lit_def)
  then have "getDateRange 0 0 \<noteq> getDateRange 0 86400000" by auto
  with a g1 show ?thesis by simp
qed

section \<open>The classifier\<close>

lemma lowerUnit_eq_query: "lowerUnit u = 0x3F \<longleftrightarrow> u = 0x3F"
  by (auto simp: lowerUnit_def)

lemma lowerUnit_eq_h: "lowerUnit u = 0x68 \<longleftrightarrow> u = 0x68 \<or> u = 0x48"
  by (auto simp: lowerUnit_def)
lemma lowerUnit_eq_t: "lowerUnit u = 0x74 \<longleftrightarrow> u = 0x74 \<or> u = 0x54"
  by (auto simp: lowerUnit_def)
lemma lowerUnit_eq_p: "lowerUnit u = 0x70 \<longleftrightarrow> u = 0x70 \<or> u = 0x50"
  by (auto simp: lowerUnit_def)

lemma includes_unit: "includes_js s [u] \<longleftrightarrow> u \<in> set s"
  by (induction s) (auto simp: startsWith_def)

lemma includes_query: "includes_js (toLowerCase s) (lit ''?'') \<longleftrightarrow> 0x3F \<in> set s"
proof -
  have "lit ''?'' = [0x3F]" by (simp add: lit_def)
  then show ?thesis
    by (auto simp: includes_unit toLowerCase_def lowerUnit_eq_query)
qed

lemma includes_short: "length s < length p \<Longrightarrow> \<not> includes_js s p"
  by (induction s) (auto simp: startsWith_def)

lemma includes_http: "includes_js (toLowerCase s) (lit ''http'') \<longleftrightarrow> mentionsHttp s"
proof (induction s rule: mentionsHttp.induct)
  case (1 a b c d rest)
  have "startsWith (toLowerCase (a # b # c # d # rest)) (lit ''http'')
        \<longleftrightarrow> (a = 0x68 \<or> a = 0x48) \<and> (b = 0x74 \<or> b = 0x54) \<and> (c = 0x74 \<or> c = 0x54)
            \<and> (d = 0x70 \<or> d = 0x50)"
    by (simp add: startsWith_def toLowerCase_def lit_def lowerUnit_eq_h lowerUnit_eq_t lowerUnit_eq_p)
  moreover have "includes_js (toLowerCase (a # b # c # d # rest)) (lit ''http'')
        \<longleftrightarrow> startsWith (toLowerCase (a # b # c # d # rest)) (lit ''http'')
            \<or> includes_js (toLowerCase (b # c # d # rest)) (lit ''http'')"
    by (simp add: toLowerCase_def)
  ultimately show ?case using 1 by simp
next
  case 2
  show ?case by (simp add: toLowerCase_def lit_def)
next
  case (3 v)
  have "\<not> includes_js (toLowerCase [v]) (lit ''http'')"
    by (intro includes_short) (simp add: toLowerCase_def lit_def)
  then show ?case by simp
next
  case (4 v vb)
  have "\<not> includes_js (toLowerCase [v, vb]) (lit ''http'')"
    by (intro includes_short) (simp add: toLowerCase_def lit_def)
  then show ?case by simp
next
  case (5 v vb vd)
  have "\<not> includes_js (toLowerCase [v, vb, vd]) (lit ''http'')"
    by (intro includes_short) (simp add: toLowerCase_def lit_def)
  then show ?case by simp
qed

lemma isQuestion_iff: "isQuestion (toLowerCase s) \<longleftrightarrow> 0x3F \<in> set s \<and> \<not> mentionsHttp s"
  by (simp add: isQuestion_def includes_query includes_http)

lemma foldl_decisions:
  "decisions (foldl summarizeMessage s ms) =
     decisions s @ map (\<lambda>m. \<lparr>who = author m, what = slice0 200 (content m)\<rparr>)
                     (filter (\<lambda>m. isDecision (toLowerCase (content m))) ms)"
  by (induction ms arbitrary: s) (simp_all add: summarizeMessage_def)

lemma foldl_actions:
  "actions (foldl summarizeMessage s ms) =
     actions s @ map (\<lambda>m. \<lparr>who = author m, what = slice0 200 (content m)\<rparr>)
                   (filter (\<lambda>m. isAction (toLowerCase (content m))) ms)"
  by (induction ms arbitrary: s) (simp_all add: summarizeMessage_def)

lemma foldl_questions:
  "questions (foldl summarizeMessage s ms) =
     questions s @ map (\<lambda>m. \<lparr>who = author m, what = slice0 150 (content m)\<rparr>)
                     (filter (\<lambda>m. isQuestion (toLowerCase (content m))) ms)"
  by (induction ms arbitrary: s) (simp_all add: summarizeMessage_def)

lemma mentionsHttp_example: "mentionsHttp (lit ''check https://x.com/search?q=1'')"
  by (simp add: lit_def)


text \<open>
  Claim C4. A message is recorded as a question exactly when its content contains a
  question mark and does not mention \<open>http\<close> (in any case, anywhere): the questions of
  a channel are its messages with that property, in order, each with its author and the
  first 150 code units of its content. The message \<open>check https://x.com/search?q=1\<close>
  is no question.
\<close>

theorem question_classification:
  "questions (summarizeChannel messages channel) =
     map (\<lambda>m. \<lparr>who = author m, what = slice0 150 (content m)\<rparr>)
       (filter (\<lambda>m. 0x3F \<in> set (content m) \<and> \<not> mentionsHttp (content m)) messages)
   \<and> questions (summarizeChannel
        [\<lparr>time = t, author = a, content = lit ''check https://x.com/search?q=1''\<rparr>] channel) = []"
proof -
  have g: "questions (summarizeChannel ms channel) =
     map (\<lambda>m. \<lparr>who = author m, what = slice0 150 (content m)\<rparr>)
       (filter (\<lambda>m. 0x3F \<in> set (content m) \<and> \<not> mentionsHttp (content m)) ms)" for ms
    unfolding summarizeChannel_def foldl_questions by (simp add: isQuestion_iff)
  show ?thesis
    unfolding g by (simp add: mentionsHttp_example)
qed

section \<open>The rendered summary\<close>

lemma sectionBody_absent: "h \<notin> set ls \<Longrightarrow> sectionBody h ls = []"
proof -
  assume "h \<notin> set ls"
  then have d: "dropWhile (\<lambda>l. l \<noteq> h) ls = []" by (induction ls) auto
  show ?thesis unfolding sectionBody_def d by simp
qed

lemma sectionBody_at:
  assumes "h \<notin> set pre" and "list_all (\<lambda>l. l \<noteq> []) bs"
  shows "sectionBody h (pre @ [h, []] @ bs @ [[]] @ post) = bs"
proof -
  have "dropWhile (\<lambda>l. l \<noteq> h) (pre @ [h, []] @ bs @ [[]] @ post) = [h, []] @ bs @ [[]] @ post"
    using assms(1) by (induction pre) auto
  moreover have "takeWhile (\<lambda>l. l \<noteq> []) (bs @ [[]] @ post) = bs"
    using assms(2) by (induction bs) auto
  ultimately show ?thesis by (simp add: sectionBody_def)
qed

lemma sectionBody_pushed:
  assumes "h \<notin> set pre" and "h \<notin> set post" and "\<And>e. b e \<noteq> []"
  shows "sectionBody h (pre @ pushSection h cap b es [] @ post) = map b (take cap es)"
proof (cases "es = []")
  case True
  then show ?thesis using assms(1,2) by (simp add: sectionBody_absent pushSection_def)
next
  case False
  have "list_all (\<lambda>l. l \<noteq> []) (map b (take cap es))"
    using assms(3) by (simp add: list_all_iff)
  then show ?thesis
    using False sectionBody_at[OF assms(1), of "map b (take cap es)" post]
    by (simp add: pushSection_def slice0_def)
qed

lemma excerptBullet_dash: "excerptBullet e = 0x2D # tl (excerptBullet e)"
  by (simp add: excerptBullet_def lit_def)

lemma linkBullet_dash: "linkBullet e = 0x2D # tl (linkBullet e)"
  by (simp add: linkBullet_def lit_def)

lemma questionBullet_dash: "questionBullet e = 0x2D # tl (questionBullet e)"
  by (simp add: questionBullet_def lit_def)

text \<open>A heading is in a block of another heading only as a bullet, and no bullet is a heading.\<close>

lemma heading_notin_block:
  fixes h :: jsstring
  assumes "h \<noteq> h'" and "h \<noteq> []" and "hd h = 0x23" and "\<And>e. b e = 0x2D # tl (b e)"
  shows "h \<notin> set (pushSection h' cap b es [])"
proof -
  have "h \<noteq> b e" for e
  proof
    assume "h = b e"
    then have "hd h = 0x2D" using assms(4)[of e] by (metis list.sel(1))
    with assms(3) show False by simp
  qed
  then show ?thesis using assms(1,2) by (auto simp: pushSection_def slice0_def dest: in_set_takeD)
qed

lemma heading_notin_header:
  assumes "h \<noteq> []" and "startsWith h (lit ''## '')"
  shows "h \<notin> set [lit ''# '' @ channel @ [SPACE, EM_DASH, SPACE] @ lit ''Summary'', [],
                    lit ''**Messages:** '' @ showNat n, [], lit ''---'', []]"
  using assms by (auto simp: startsWith_def lit_def)

lemma formatSummaryLines_blocks:
  "formatSummaryLines channel messages s =
     [lit ''# '' @ channel @ [SPACE, EM_DASH, SPACE] @ lit ''Summary'', [],
      lit ''**Messages:** '' @ showNat (length messages), [], lit ''---'', []]
     @ pushSection (lit ''## Key Decisions'') 5 excerptBullet (decisions s) []
     @ pushSection (lit ''## Action Items'') 5 excerptBullet (actions s) []
     @ pushSection (lit ''## Links Shared'') 10 linkBullet (links s) []
     @ pushSection (lit ''## Open Questions'') 5 questionBullet (questions s) []"
  by (simp add: formatSummaryLines_def pushSection_def)

lemma heading_facts:
  "lit ''## Key Decisions'' \<noteq> []" "startsWith (lit ''## Key Decisions'') (lit ''## '')" "hd (lit ''## Key Decisions'') = 0x23"
  "lit ''## Action Items'' \<noteq> []" "startsWith (lit ''## Action Items'') (lit ''## '')" "hd (lit ''## Action Items'') = 0x23"
  "lit ''## Links Shared'' \<noteq> []" "startsWith (lit ''## Links Shared'') (lit ''## '')" "hd (lit ''## Links Shared'') = 0x23"
  "lit ''## Open Questions'' \<noteq> []" "startsWith (lit ''## Open Questions'') (lit ''## '')" "hd (lit ''## Open Questions'') = 0x23"
  by (simp_all add: lit_def startsWith_def)

lemma heading_distinct:
  "lit ''## Key Decisions'' \<noteq> lit ''## Action Items''"
  "lit ''## Key Decisions'' \<noteq> lit ''## Links Shared''"
  "lit ''## Key Decisions'' \<noteq> lit ''## Open Questions''"
  "lit ''## Action Items'' \<noteq> lit ''## Key Decisions''"
  "lit ''## Action Items'' \<noteq> lit ''## Links Shared''"
  "lit ''## Action Items'' \<noteq> lit ''## Open Questions''"
  "lit ''## Links Shared'' \<noteq> lit ''## Key Decisions''"
  "lit ''## Links Shared'' \<noteq> lit ''## Action Items''"
  "lit ''## Links Shared'' \<noteq> lit ''## Open Questions''"
  "lit ''## Open Questions'' \<noteq> lit ''## Key Decisions''"
  "lit ''## Open Questions'' \<noteq> lit ''## Action Items''"
  "lit ''## Open Questions'' \<noteq> lit ''## Links Shared''"
  by (simp_all add: lit_def)

lemma bullets_nonempty:
  "excerptBullet e \<noteq> []" "linkBullet l \<noteq> []" "questionBullet e \<noteq> []"
  by (simp_all add: excerptBullet_def linkBullet_def questionBullet_def lit_def)

lemma sectionBody_blocks:
  fixes hD hA hL hQ :: jsstring
  assumes hdr: "hD \<notin> set hdr" "hA \<notin> set hdr" "hL \<notin> set hdr" "hQ \<notin> set hdr"
    and ne: "hD \<noteq> []" "hA \<noteq> []" "hL \<noteq> []" "hQ \<noteq> []"
    and hash: "hd hD = 0x23" "hd hA = 0x23" "hd hL = 0x23" "hd hQ = 0x23"
    and dist: "distinct [hD, hA, hL, hQ]"
    and dash: "\<And>e. bD e = 0x2D # tl (bD e)" "\<And>e. bA e = 0x2D # tl (bA e)"
              "\<And>e. bL e = 0x2D # tl (bL e)" "\<And>e. bQ e = 0x2D # tl (bQ e)"
    and ls_def: "ls = hdr @ pushSection hD cD bD eD [] @ pushSection hA cA bA eA []
                  @ pushSection hL cL bL eL [] @ pushSection hQ cQ bQ eQ []"
  shows "sectionBody hD ls = map bD (take cD eD)"
    and "sectionBody hA ls = map bA (take cA eA)"
    and "sectionBody hL ls = map bL (take cL eL)"
    and "sectionBody hQ ls = map bQ (take cQ eQ)"
proof -
  have neD: "bD e \<noteq> []" for e using dash(1)[of e] by auto
  have neA: "bA e \<noteq> []" for e using dash(2)[of e] by auto
  have neL: "bL e \<noteq> []" for e using dash(3)[of e] by auto
  have neQ: "bQ e \<noteq> []" for e using dash(4)[of e] by auto
  note nb = heading_notin_block
  from dist have d: "hA \<noteq> hD" "hL \<noteq> hD" "hQ \<noteq> hD" "hD \<noteq> hA" "hL \<noteq> hA" "hQ \<noteq> hA"
    "hD \<noteq> hL" "hA \<noteq> hL" "hQ \<noteq> hL" "hD \<noteq> hQ" "hA \<noteq> hQ" "hL \<noteq> hQ"
    by auto
  have D: "hA \<notin> set (pushSection hD cD bD eD [])" "hL \<notin> set (pushSection hD cD bD eD [])"
          "hQ \<notin> set (pushSection hD cD bD eD [])"
    by (rule nb, rule d, rule ne, rule hash, rule dash)+
  have A: "hD \<notin> set (pushSection hA cA bA eA [])" "hL \<notin> set (pushSection hA cA bA eA [])"
          "hQ \<notin> set (pushSection hA cA bA eA [])"
    by (rule nb, rule d, rule ne, rule hash, rule dash)+
  have L: "hD \<notin> set (pushSection hL cL bL eL [])" "hA \<notin> set (pushSection hL cL bL eL [])"
          "hQ \<notin> set (pushSection hL cL bL eL [])"
    by (rule nb, rule d, rule ne, rule hash, rule dash)+
  have Q: "hD \<notin> set (pushSection hQ cQ bQ eQ [])" "hA \<notin> set (pushSection hQ cQ bQ eQ [])"
          "hL \<notin> set (pushSection hQ cQ bQ eQ [])"
    by (rule nb, rule d, rule ne, rule hash, rule dash)+
  show "sectionBody hD ls = map bD (take cD eD)"
    unfolding ls_def using hdr A L Q by (intro sectionBody_pushed neD) auto
  have "sectionBody hA ((hdr @ pushSection hD cD bD eD []) @ pushSection hA cA bA eA []
          @ (pushSection hL cL bL eL [] @ pushSection hQ cQ bQ eQ [])) = map bA (take cA eA)"
    using hdr D L Q by (intro sectionBody_pushed neA) auto
  then show "sectionBody hA ls = map bA (take cA eA)" by (simp add: ls_def)
  have "sectionBody hL ((hdr @ pushSection hD cD bD eD [] @ pushSection hA cA bA eA [])
          @ pushSection hL cL bL eL [] @ pushSection hQ cQ bQ eQ []) = map bL (take cL eL)"
    using hdr D A Q by (intro sectionBody_pushed neL) auto
  then show "sectionBody hL ls = map bL (take cL eL)" by (simp add: ls_def)
  have "sectionBody hQ ((hdr @ pushSection hD cD bD eD [] @ pushSection hA cA bA eA []
          @ pushSection hL cL bL eL []) @ pushSection hQ cQ bQ eQ [] @ []) = map bQ (take cQ eQ)"
    using hdr D A L by (intro sectionBody_pushed neQ) auto
  then show "sectionBody hQ ls = map bQ (take cQ eQ)" by (simp add: ls_def)
qed

lemma sectionBody_formatSummaryLines:
  "sectionBody (lit ''## Key Decisions'') (formatSummaryLines channel messages s)
     = map excerptBullet (take 5 (decisions s))"
  "sectionBody (lit ''## Action Items'') (formatSummaryLines channel messages s)
     = map excerptBullet (take 5 (actions s))"
  "sectionBody (lit ''## Links Shared'') (formatSummaryLines channel messages s)
     = map linkBullet (take 10 (links s))"
  "sectionBody (lit ''## Open Questions'') (formatSummaryLines channel messages s)
     = map questionBullet (take 5 (questions s))"
  by (rule sectionBody_blocks[OF _ _ _ _ _ _ _ _ _ _ _ _ _ _ _ _ _ formatSummaryLines_blocks];
      (rule heading_notin_header heading_facts excerptBullet_dash linkBullet_dash
            questionBullet_dash)?;
      simp add: heading_facts heading_distinct)+

lemma join_terminated: "join_js sep (ls @ [[]]) = concat (map (\<lambda>l. l @ [sep]) ls)"
proof (induction ls)
  case Nil
  show ?case by simp
next
  case (Cons l ls)
  have "join_js sep (l # (ls @ [[]])) = l @ sep # join_js sep (ls @ [[]])"
    by (cases ls) simp_all
  with Cons show ?case by simp
qed

lemma pushSection_terminated:
  "pushSection h cap b es (pre @ [[]]) =
     (pre @ (if es = [] then [] else [[], h, []] @ map b (take cap es))) @ [[]]"
  by (simp add: pushSection_def slice0_def)

lemma block_text:
  "0 < cap \<Longrightarrow>
   concat (map (\<lambda>l. l @ [NL]) (if es = [] then [] else [[], h, []] @ map b (take cap es)))
   = sectionText h (map b (take cap es))"
  by (cases es) (simp_all add: sectionText_def)

lemma formatSummary_text:
  "formatSummary channel messages s =
     summaryHeader channel (length messages)
     @ sectionText (lit ''## Key Decisions'') (map excerptBullet (take 5 (decisions s)))
     @ sectionText (lit ''## Action Items'') (map excerptBullet (take 5 (actions s)))
     @ sectionText (lit ''## Links Shared'') (map linkBullet (take 10 (links s)))
     @ sectionText (lit ''## Open Questions'') (map questionBullet (take 5 (questions s)))"
proof -
  let ?hdr = "[lit ''# '' @ channel @ [SPACE, EM_DASH, SPACE] @ lit ''Summary'', [],
               lit ''**Messages:** '' @ showNat (length messages), [], lit ''---'']"
  let ?D = "if decisions s = [] then []
            else [[], lit ''## Key Decisions'', []] @ map excerptBullet (take 5 (decisions s))"
  let ?A = "if actions s = [] then []
            else [[], lit ''## Action Items'', []] @ map excerptBullet (take 5 (actions s))"
  let ?L = "if links s = [] then []
            else [[], lit ''## Links Shared'', []] @ map linkBullet (take 10 (links s))"
  let ?Q = "if questions s = [] then []
            else [[], lit ''## Open Questions'', []] @ map questionBullet (take 5 (questions s))"
  have 0: "[lit ''# '' @ channel @ [SPACE, EM_DASH, SPACE] @ lit ''Summary'', [],
            lit ''**Messages:** '' @ showNat (length messages), [], lit ''---'', []]
           = ?hdr @ [[]]"
    by simp
  have lines: "formatSummaryLines channel messages s = (?hdr @ ?D @ ?A @ ?L @ ?Q) @ [[]]"
    unfolding formatSummaryLines_def 0 pushSection_terminated by simp
  have h: "concat (map (\<lambda>l. l @ [NL]) ?hdr) = summaryHeader channel (length messages)"
    by (simp add: summaryHeader_def)
  show ?thesis
    unfolding formatSummary_def lines join_terminated
    by (simp only: map_append concat_append h block_text[of 5] block_text[of 10]
        zero_less_numeral)
qed

lemma take_min_length: "length (take n xs) = min n (length xs)"
  by (simp add: min.commute)


lemma showNat_no_NL: "NL \<notin> set (showNat n)"
  using showNat_digits[of n] by (auto simp: list_all_iff isDigit_def)

lemma pushSection_no_NL:
  assumes "NL \<notin> set h" and "list_all (\<lambda>l. NL \<notin> set l) (map b (take cap es))"
  shows "list_all (\<lambda>l. NL \<notin> set l) (pushSection h cap b es [])"
  using assms by (simp add: pushSection_def slice0_def)

lemma heading_no_NL:
  "NL \<notin> set (lit ''## Key Decisions'')" "NL \<notin> set (lit ''## Action Items'')"
  "NL \<notin> set (lit ''## Links Shared'')" "NL \<notin> set (lit ''## Open Questions'')"
  by (simp_all add: lit_def)

text \<open>
  When no bullet holds a newline, the lines of the rendered text are the pushed lines,
  and the body of each section in the text is its bullets, one on a line.
\<close>

lemma summary_text_lines:
  assumes "NL \<notin> set channel"
    and "list_all (\<lambda>l. NL \<notin> set l) (map excerptBullet (take 5 (decisions s)))"
    and "list_all (\<lambda>l. NL \<notin> set l) (map excerptBullet (take 5 (actions s)))"
    and "list_all (\<lambda>l. NL \<notin> set l) (map linkBullet (take 10 (links s)))"
    and "list_all (\<lambda>l. NL \<notin> set l) (map questionBullet (take 5 (questions s)))"
  shows "split_js NL (formatSummary channel messages s) = formatSummaryLines channel messages s"
    and "sectionBody (lit ''## Key Decisions'') (split_js NL (formatSummary channel messages s))
         = map excerptBullet (take 5 (decisions s))"
    and "sectionBody (lit ''## Action Items'') (split_js NL (formatSummary channel messages s))
         = map excerptBullet (take 5 (actions s))"
    and "sectionBody (lit ''## Links Shared'') (split_js NL (formatSummary channel messages s))
         = map linkBullet (take 10 (links s))"
    and "sectionBody (lit ''## Open Questions'') (split_js NL (formatSummary channel messages s))
         = map questionBullet (take 5 (questions s))"
proof -
  have hdr: "list_all (\<lambda>l. NL \<notin> set l)
     [lit ''# '' @ channel @ [SPACE, EM_DASH, SPACE] @ lit ''Summary'', [],
      lit ''**Messages:** '' @ showNat (length messages), [], lit ''---'', []]"
    using assms(1) showNat_no_NL[of "length messages"] by (simp add: lit_def)
  have "list_all (\<lambda>l. NL \<notin> set l) (formatSummaryLines channel messages s)"
    unfolding formatSummaryLines_blocks list_all_append
    using hdr pushSection_no_NL[OF heading_no_NL(1) assms(2)]
      pushSection_no_NL[OF heading_no_NL(2) assms(3)]
      pushSection_no_NL[OF heading_no_NL(3) assms(4)]
      pushSection_no_NL[OF heading_no_NL(4) assms(5)]
    by blast
  moreover have "formatSummaryLines channel messages s \<noteq> []"
    by (simp add: formatSummaryLines_blocks)
  ultimately show 1: "split_js NL (formatSummary channel messages s)
                      = formatSummaryLines channel messages s"
    unfolding formatSummary_def by (intro split_join)
  show "sectionBody (lit ''## Key Decisions'') (split_js NL (formatSummary channel messages s))
         = map excerptBullet (take 5 (decisions s))"
    and "sectionBody (lit ''## Action Items'') (split_js NL (formatSummary channel messages s))
         = map excerptBullet (take 5 (actions s))"
    and "sectionBody (lit ''## Links Shared'') (split_js NL (formatSummary channel messages s))
         = map linkBullet (take 10 (links s))"
    and "sectionBody (lit ''## Open Questions'') (split_js NL (formatSummary channel messages s))
         = map questionBullet (take 5 (questions s))"
    unfolding 1 by (rule sectionBody_formatSummaryLines)+
qed


text \<open>
  Claim C5. For every set of signals, the rendered summary is the header followed, for
  each category that is not empty, by its heading and the bullets of the first entries
  of the category, in their order: at most 5 decisions, 5 actions, 10 links and 5
  questions. The entries after these never reach the text: the summary rendered from the
  arrays cut to 5, 5, 10 and 5 entries is the same text. The decisions of a channel are
  its matching messages in their order, so seven matching messages give the bullets of
  the first five. (A bullet holds its excerpt as it is, newlines included, and is one
  bullet of the text whatever it holds.)
\<close>

theorem summary_caps:
  "formatSummary channel messages s =
     summaryHeader channel (length messages)
     @ sectionText (lit ''## Key Decisions'') (map excerptBullet (take 5 (decisions s)))
     @ sectionText (lit ''## Action Items'') (map excerptBullet (take 5 (actions s)))
     @ sectionText (lit ''## Links Shared'') (map linkBullet (take 10 (links s)))
     @ sectionText (lit ''## Open Questions'') (map questionBullet (take 5 (questions s)))
   \<and> formatSummary channel messages s = formatSummary channel messages (capped s)
   \<and> length (map excerptBullet (take 5 (decisions s))) = min 5 (length (decisions s))
   \<and> length (map excerptBullet (take 5 (actions s))) = min 5 (length (actions s))
   \<and> length (map linkBullet (take 10 (links s))) = min 10 (length (links s))
   \<and> length (map questionBullet (take 5 (questions s))) = min 5 (length (questions s))
   \<and> take 5 (decisions (summarizeChannel ms channel))
     = map (\<lambda>m. \<lparr>who = author m, what = slice0 200 (content m)\<rparr>)
         (take 5 (filter (\<lambda>m. isDecision (toLowerCase (content m))) ms))"
proof -
  have c: "formatSummary channel messages s = formatSummary channel messages (capped s)"
    unfolding formatSummary_text by (simp add: capped_def)
  have d: "take 5 (decisions (summarizeChannel ms channel))
     = map (\<lambda>m. \<lparr>who = author m, what = slice0 200 (content m)\<rparr>)
         (take 5 (filter (\<lambda>m. isDecision (toLowerCase (content m))) ms))"
    unfolding summarizeChannel_def foldl_decisions by (simp add: take_map)
  show ?thesis
    using formatSummary_text[of channel messages s] c d
    by (simp only: length_map take_min_length simp_thms)
qed


text \<open>
  Claim C7. A decision or an action is recorded with the first 200 code units of the
  content of the message. In the rendered summary of a channel, the bullet of each of
  the first five decisions and of the first five actions is \<open>- **author**: \<close>, the
  first 150 code units of that excerpt, and three dots.
\<close>

theorem excerpt_truncation:
  "decisions (summarizeChannel messages channel)
     = map (\<lambda>m. \<lparr>who = author m, what = take 200 (content m)\<rparr>)
         (filter (\<lambda>m. isDecision (toLowerCase (content m))) messages)
   \<and> actions (summarizeChannel messages channel)
     = map (\<lambda>m. \<lparr>who = author m, what = take 200 (content m)\<rparr>)
         (filter (\<lambda>m. isAction (toLowerCase (content m))) messages)
   \<and> formatSummary channel messages (summarizeChannel messages channel)
     = summaryHeader channel (length messages)
       @ sectionText (lit ''## Key Decisions'')
           (map (\<lambda>m. lit ''- **'' @ author m @ lit ''**: '' @ take 150 (take 200 (content m))
                      @ lit ''...'')
              (take 5 (filter (\<lambda>m. isDecision (toLowerCase (content m))) messages)))
       @ sectionText (lit ''## Action Items'')
           (map (\<lambda>m. lit ''- **'' @ author m @ lit ''**: '' @ take 150 (take 200 (content m))
                      @ lit ''...'')
              (take 5 (filter (\<lambda>m. isAction (toLowerCase (content m))) messages)))
       @ sectionText (lit ''## Links Shared'')
           (map linkBullet (take 10 (links (summarizeChannel messages channel))))
       @ sectionText (lit ''## Open Questions'')
           (map questionBullet (take 5 (questions (summarizeChannel messages channel))))"
proof -
  have d: "decisions (summarizeChannel messages channel)
     = map (\<lambda>m. \<lparr>who = author m, what = take 200 (content m)\<rparr>)
         (filter (\<lambda>m. isDecision (toLowerCase (content m))) messages)"
    unfolding summarizeChannel_def foldl_decisions by (simp add: slice0_def)
  have a: "actions (summarizeChannel messages channel)
     = map (\<lambda>m. \<lparr>who = author m, what = take 200 (content m)\<rparr>)
         (filter (\<lambda>m. isAction (toLowerCase (content m))) messages)"
    unfolding summarizeChannel_def foldl_actions by (simp add: slice0_def)
  have b: "map excerptBullet (take 5 (map (\<lambda>m. \<lparr>who = author m, what = take 200 (content m)\<rparr>) xs))
     = map (\<lambda>m. lit ''- **'' @ author m @ lit ''**: '' @ take 150 (take 200 (content m))
                 @ lit ''...'') (take 5 xs)" for xs
    by (simp add: take_map excerptBullet_def slice0_def o_def)
  have "formatSummary channel messages (summarizeChannel messages channel)
     = summaryHeader channel (length messages)
       @ sectionText (lit ''## Key Decisions'')
           (map excerptBullet (take 5 (decisions (summarizeChannel messages channel))))
       @ sectionText (lit ''## Action Items'')
           (map excerptBullet (take 5 (actions (summarizeChannel messages channel))))
       @ sectionText (lit ''## Links Shared'')
           (map linkBullet (take 10 (links (summarizeChannel messages channel))))
       @ sectionText (lit ''## Open Questions'')
           (map questionBullet (take 5 (questions (summarizeChannel messages channel))))"
    by (rule formatSummary_text)
  then show ?thesis
    using d a by (simp only: b simp_thms)
qed

section \<open>The main loop of the summarizer\<close>

lemma summarizeFile_logs: "logsFiles (summarizeFile w f) = logsFiles w"
  by (simp add: summarizeFile_def Let_def split: option.splits)

lemma summarizeFile_other: "f \<noteq> g \<Longrightarrow> summaryFiles (summarizeFile w f) g = summaryFiles w g"
  by (simp add: summarizeFile_def Let_def split: option.splits)

lemma summarizeFile_same:
  "logsFiles w f = Some input \<Longrightarrow>
   summaryFiles (summarizeFile w f) f =
     (if length (parseTranscript input) < 3 then summaryFiles w f
      else Some (formatSummary (replace_js f (lit ''.md'') []) (parseTranscript input)
                  (summarizeChannel (parseTranscript input) (replace_js f (lit ''.md'') []))))"
  by (simp add: summarizeFile_def Let_def)

lemma foldl_summarizeFile_logs: "logsFiles (foldl summarizeFile w fs) = logsFiles w"
  by (induction fs arbitrary: w) (simp_all add: summarizeFile_logs)

lemma foldl_summarizeFile_other:
  "g \<notin> set fs \<Longrightarrow> summaryFiles (foldl summarizeFile w fs) g = summaryFiles w g"
  by (induction fs arbitrary: w) (auto simp: summarizeFile_other)

lemma foldl_summarizeFile_same:
  assumes "logsFiles w f = Some input" and "f \<in> set fs"
  shows "summaryFiles (foldl summarizeFile w fs) f =
     (if length (parseTranscript input) < 3 then summaryFiles w f
      else Some (formatSummary (replace_js f (lit ''.md'') []) (parseTranscript input)
                  (summarizeChannel (parseTranscript input) (replace_js f (lit ''.md'') []))))"
  using assms
proof (induction fs arbitrary: w)
  case Nil
  then show ?case by simp
next
  case (Cons g fs)
  have lg: "logsFiles (summarizeFile w g) f = Some input"
    using Cons.prems(1) by (simp add: summarizeFile_logs)
  show ?case
  proof (cases "f \<in> set fs")
    case True
    show ?thesis
    proof (cases "g = f")
      case True
      with Cons.IH[OF lg \<open>f \<in> set fs\<close>] summarizeFile_same[OF Cons.prems(1)]
      show ?thesis by simp
    next
      case False
      with Cons.IH[OF lg \<open>f \<in> set fs\<close>] summarizeFile_other[of g f w]
      show ?thesis by simp
    qed
  next
    case False
    with Cons.prems(2) have "g = f" by simp
    with False foldl_summarizeFile_other[of f fs "summarizeFile w f"]
      summarizeFile_same[OF Cons.prems(1)]
    show ?thesis by simp
  qed
qed

lemma endsWith_md: "endsWith (lit ''a.md'') (lit ''.md'')" "endsWith (lit ''b.md'') (lit ''.md'')"
  by (simp_all add: endsWith_def lit_def)

lemma three_headers:
  "length (parseTranscript
     (lit ''### 09:30 '' @ [EM_DASH] @ lit '' ann'' @ [NL]
      @ lit ''### 09:31 '' @ [EM_DASH] @ lit '' bob'' @ [NL]
      @ lit ''### 09:32 '' @ [EM_DASH] @ lit '' cy'')) = 3"
  by (simp add: parseTranscript_def parseLines_def parseLine_def pushCurrent_def headerMatch_def
      startsWith_def isDigit_def isLineTerminator_def lit_def)

lemma two_headers:
  "length (parseTranscript
     (lit ''### 09:30 '' @ [EM_DASH] @ lit '' ann'' @ [NL]
      @ lit ''### 09:31 '' @ [EM_DASH] @ lit '' bob'')) = 2"
  by (simp add: parseTranscript_def parseLines_def parseLine_def pushCurrent_def headerMatch_def
      startsWith_def isDigit_def isLineTerminator_def lit_def)


text \<open>
  Claim C6. For every transcript file of the day's directory, the summarizer writes the
  summary file of the same name exactly when the transcript decodes to at least three
  messages; with fewer than three the summary file is left as it was (not written).
\<close>

theorem summary_written_iff:
  assumes "logsListing w = Some listing" and "file \<in> set listing"
    and "endsWith file (lit ''.md'')" and "logsFiles w file = Some input"
  shows "summaryFiles (summarizerMain w) file =
     (if length (parseTranscript input) < 3 then summaryFiles w file
      else Some (formatSummary (replace_js file (lit ''.md'') []) (parseTranscript input)
                  (summarizeChannel (parseTranscript input) (replace_js file (lit ''.md'') []))))"
proof -
  have "file \<in> set (filter (\<lambda>f. endsWith f (lit ''.md'')) listing)"
    using assms(2,3) by simp
  then show ?thesis
    using assms(1) foldl_summarizeFile_same[OF assms(4)] by (simp add: summarizerMain_def)
qed


theorem summary_written_iff_witness:
  "summaryFiles (summarizerMain
      \<lparr>logsListing = Some [lit ''a.md'', lit ''b.md''],
       logsFiles = [lit ''a.md'' \<mapsto>
           lit ''### 09:30 '' @ [EM_DASH] @ lit '' ann'' @ [NL]
           @ lit ''### 09:31 '' @ [EM_DASH] @ lit '' bob'' @ [NL]
           @ lit ''### 09:32 '' @ [EM_DASH] @ lit '' cy'',
         lit ''b.md'' \<mapsto>
           lit ''### 09:30 '' @ [EM_DASH] @ lit '' ann'' @ [NL]
           @ lit ''### 09:31 '' @ [EM_DASH] @ lit '' bob''],
       summaryFiles = Map.empty\<rparr>) (lit ''a.md'') \<noteq> None
   \<and> summaryFiles (summarizerMain
      \<lparr>logsListing = Some [lit ''a.md'', lit ''b.md''],
       logsFiles = [lit ''a.md'' \<mapsto>
           lit ''### 09:30 '' @ [EM_DASH] @ lit '' ann'' @ [NL]
           @ lit ''### 09:31 '' @ [EM_DASH] @ lit '' bob'' @ [NL]
           @ lit ''### 09:32 '' @ [EM_DASH] @ lit '' cy'',
         lit ''b.md'' \<mapsto>
           lit ''### 09:30 '' @ [EM_DASH] @ lit '' ann'' @ [NL]
           @ lit ''### 09:31 '' @ [EM_DASH] @ lit '' bob''],
       summaryFiles = Map.empty\<rparr>) (lit ''b.md'') = None"
proof -
  let ?in3 = "lit ''### 09:30 '' @ [EM_DASH] @ lit '' ann'' @ [NL]
           @ lit ''### 09:31 '' @ [EM_DASH] @ lit '' bob'' @ [NL]
           @ lit ''### 09:32 '' @ [EM_DASH] @ lit '' cy''"
  let ?in2 = "lit ''### 09:30 '' @ [EM_DASH] @ lit '' ann'' @ [NL]
           @ lit ''### 09:31 '' @ [EM_DASH] @ lit '' bob''"
  let ?w = "\<lparr>logsListing = Some [lit ''a.md'', lit ''b.md''],
       logsFiles = [lit ''a.md'' \<mapsto> ?in3, lit ''b.md'' \<mapsto> ?in2],
       summaryFiles = Map.empty\<rparr>"
  have ne: "lit ''a.md'' \<noteq> lit ''b.md''" by (simp add: lit_def)
  have l: "logsListing ?w = Some [lit ''a.md'', lit ''b.md'']" by simp
  have a: "logsFiles ?w (lit ''a.md'') = Some ?in3" using ne by simp
  have b: "logsFiles ?w (lit ''b.md'') = Some ?in2" by simp
  have "summaryFiles (summarizerMain ?w) (lit ''a.md'') \<noteq> None"
    using summary_written_iff[OF l _ endsWith_md(1) a] three_headers by simp
  moreover have "summaryFiles (summarizerMain ?w) (lit ''b.md'') = None"
    using summary_written_iff[OF l _ endsWith_md(2) b] two_headers by simp
  ultimately show ?thesis by blast
qed


section \<open>The main loop of the collector\<close>

lemma collectChannel_other:
  "p \<noteq> (dateStr dr, channel @ lit ''.md'') \<Longrightarrow>
   collectChannel tz clock fetchMessages dr fs channel p = fs p"
  by (simp add: collectChannel_def split: fetch_result.splits)

lemma collectChannel_empty:
  "fetchMessages channel (afterStr dr) (beforeStr dr) = Fetched [] \<Longrightarrow>
   collectChannel tz clock fetchMessages dr fs channel = fs"
  by (simp add: collectChannel_def)

lemma foldl_collectChannel_empty:
  assumes "fetchMessages channel (afterStr dr) (beforeStr dr) = Fetched []"
  shows "foldl (collectChannel tz clock fetchMessages dr) fs chs (d, channel @ lit ''.md'')
         = fs (d, channel @ lit ''.md'')"
proof (induction chs arbitrary: fs)
  case Nil
  show ?case by simp
next
  case (Cons c chs)
  have "collectChannel tz clock fetchMessages dr fs c (d, channel @ lit ''.md'')
        = fs (d, channel @ lit ''.md'')"
  proof (cases "c = channel")
    case True
    then show ?thesis using assms by (simp add: collectChannel_empty)
  next
    case False
    then show ?thesis by (intro collectChannel_other) simp
  qed
  then show ?case using Cons.IH[of "collectChannel tz clock fetchMessages dr fs c"] by simp
qed


text \<open>
  Claim C10. When the fetch of a channel returns an empty list of messages, the
  collector writes no transcript file for the channel: after the run, the file of that
  channel is what it was before, in every directory.
\<close>

theorem empty_fetch_writes_nothing:
  assumes "fetchMessages channel (afterStr (getDateRange tz now)) (beforeStr (getDateRange tz now))
           = Fetched []"
  shows "collectorMain tz now clock fetchMessages fs (d, channel @ lit ''.md'')
         = fs (d, channel @ lit ''.md'')"
  using foldl_collectChannel_empty[of fetchMessages channel "getDateRange tz now", OF assms]
  by (simp add: collectorMain_def)

theorem empty_fetch_writes_nothing_witness:
  "(\<lambda>c a b. if c = lit ''coding'' then Fetched [\<lparr>createdAt = Some 0, displayName = Some (lit ''bob''), userId = None, rawContent = Some (lit ''hi'')\<rparr>] else Fetched [])
      (lit ''general'') (afterStr (getDateRange 0 0)) (beforeStr (getDateRange 0 0)) = Fetched []
   \<and> collectorMain 0 0 (\<lambda>c. 0)
        (\<lambda>c a b. if c = lit ''coding'' then Fetched [\<lparr>createdAt = Some 0, displayName = Some (lit ''bob''), userId = None, rawContent = Some (lit ''hi'')\<rparr>] else Fetched [])
        Map.empty (lit ''1969-12-31'', lit ''general'' @ lit ''.md'') = None"
proof -
  have ne: "lit ''general'' \<noteq> lit ''coding''" by (simp add: lit_def)
  have f: "(\<lambda>c a b. if c = lit ''coding'' then Fetched [\<lparr>createdAt = Some 0, displayName = Some (lit ''bob''), userId = None, rawContent = Some (lit ''hi'')\<rparr>] else Fetched [])
      (lit ''general'') (afterStr (getDateRange 0 0)) (beforeStr (getDateRange 0 0)) = Fetched []"
    using ne by simp
  show ?thesis
    using empty_fetch_writes_nothing[where channel = "lit ''general''" and tz = 0 and now = 0
        and clock = "\<lambda>c. 0" and fs = Map.empty and d = "lit ''1969-12-31''"
        and fetchMessages = "\<lambda>c a b. if c = lit ''coding'' then Fetched [\<lparr>createdAt = Some 0, displayName = Some (lit ''bob''), userId = None, rawContent = Some (lit ''hi'')\<rparr>] else Fetched []"]
      ne
    by simp
qed

end
